theory Spec2Isabelle
  imports Main
begin


section \<open>JavaScript values used by the session client\<close>

text \<open>
  The handlers receive \<open>data: any\<close>. A property that may be missing is an \<open>option\<close>
  (\<open>None\<close> is \<open>undefined\<close>); a string is truthy exactly when it is not empty.
  \<open>a || b\<close> yields \<open>a\<close> when \<open>a\<close> is truthy and \<open>b\<close> otherwise.
\<close>

definition truthy :: "string option \<Rightarrow> bool" where
  "truthy a = (case a of None \<Rightarrow> False | Some s \<Rightarrow> s \<noteq> [])"

definition js_or :: "string option \<Rightarrow> string \<Rightarrow> string" where
  "js_or a b = (case a of None \<Rightarrow> b | Some s \<Rightarrow> if s \<noteq> [] then s else b)"

definition js_or_opt :: "string option \<Rightarrow> string option \<Rightarrow> string option" where
  "js_or_opt a b = (if truthy a then a else b)"

text \<open>String concatenation \<open>s + x\<close>: an undefined operand is rendered as the text \<open>undefined\<close>.\<close>

definition js_str :: "string option \<Rightarrow> string" where
  "js_str a = (case a of None \<Rightarrow> ''undefined'' | Some s \<Rightarrow> s)"

text \<open>
  The literals of the view are not ASCII; they are kept as their UTF-8 bytes.
  In order: "start creating: ", "creation finished!", "an error happened during creation",
  "error: ", "retrying...", "task cancelled", and the five icons (rocket, check mark,
  cross, retry arrows, no-entry sign).
\<close>

definition TXT_start_prefix :: string where
  "TXT_start_prefix = [CHR 0xE5, CHR 0xBC, CHR 0x80, CHR 0xE5, CHR 0xA7, CHR 0x8B, CHR 0xE5, CHR 0x88,
     CHR 0x9B, CHR 0xE4, CHR 0xBD, CHR 0x9C, CHR 0x3A, CHR 0x20]"

definition TXT_complete :: string where
  "TXT_complete = [CHR 0xE5, CHR 0x88, CHR 0x9B, CHR 0xE4, CHR 0xBD, CHR 0x9C, CHR 0xE5, CHR 0xAE,
     CHR 0x8C, CHR 0xE6, CHR 0x88, CHR 0x90, CHR 0xEF, CHR 0xBC, CHR 0x81]"

definition TXT_default_error :: string where
  "TXT_default_error = [CHR 0xE5, CHR 0x88, CHR 0x9B, CHR 0xE4, CHR 0xBD, CHR 0x9C, CHR 0xE8, CHR 0xBF,
     CHR 0x87, CHR 0xE7, CHR 0xA8, CHR 0x8B, CHR 0xE4, CHR 0xB8, CHR 0xAD, CHR 0xE5, CHR 0x8F, CHR 0x91,
     CHR 0xE7, CHR 0x94, CHR 0x9F, CHR 0xE9, CHR 0x94, CHR 0x99, CHR 0xE8, CHR 0xAF, CHR 0xAF]"

definition TXT_error_prefix :: string where
  "TXT_error_prefix = [CHR 0xE9, CHR 0x94, CHR 0x99, CHR 0xE8, CHR 0xAF, CHR 0xAF, CHR 0x3A, CHR 0x20]"

definition TXT_retrying :: string where
  "TXT_retrying = [CHR 0xE6, CHR 0xAD, CHR 0xA3, CHR 0xE5, CHR 0x9C, CHR 0xA8, CHR 0xE9, CHR 0x87,
     CHR 0x8D, CHR 0xE8, CHR 0xAF, CHR 0x95, CHR 0x2E, CHR 0x2E, CHR 0x2E]"

definition TXT_cancelled :: string where
  "TXT_cancelled = [CHR 0xE4, CHR 0xBB, CHR 0xBB, CHR 0xE5, CHR 0x8A, CHR 0xA1, CHR 0xE5, CHR 0xB7,
     CHR 0xB2, CHR 0xE5, CHR 0x8F, CHR 0x96, CHR 0xE6, CHR 0xB6, CHR 0x88]"

definition ICON_rocket :: string where
  "ICON_rocket = [CHR 0xF0, CHR 0x9F, CHR 0x9A, CHR 0x80]"

definition ICON_check :: string where
  "ICON_check = [CHR 0xE2, CHR 0x9C, CHR 0x85]"

definition ICON_cross :: string where
  "ICON_cross = [CHR 0xE2, CHR 0x9D, CHR 0x8C]"

definition ICON_retry :: string where
  "ICON_retry = [CHR 0xF0, CHR 0x9F, CHR 0x94, CHR 0x84]"

definition ICON_forbidden :: string where
  "ICON_forbidden = [CHR 0xF0, CHR 0x9F, CHR 0x9A, CHR 0xAB]"

section \<open>The creation view: messages and stream buffers\<close>

text \<open>
  The payload of an \<open>agent:*\<close> event, with the properties the handlers read.
\<close>

record payload =
  p_type :: "string option"
  p_token :: "string option"
  p_content :: "string option"
  p_topic :: "string option"
  p_error :: "string option"
  p_message :: "string option"
  p_tool :: "string option"
  p_input :: "string option"
  p_output :: "string option"

datatype role = Assistant | System

record toolCall =
  tc_name :: "string option"
  tc_input :: "string option"
  tc_expanded :: bool

record toolResult =
  tr_output :: "string option"
  tr_isError :: bool
  tr_expanded :: bool

text \<open>The interface \<open>Message\<close> of the view; an absent property is \<open>None\<close>.\<close>

record message =
  m_role :: role
  m_content :: "string option"
  m_thinking :: "string option"
  m_thinkingExpanded :: "bool option"
  m_thinkingComplete :: "bool option"
  m_toolCall :: "toolCall option"
  m_toolResult :: "toolResult option"
  m_icon :: "string option"
  m_time :: string

text \<open>
  The reactive state of the view that the socket handlers read and write. The preview
  fields (generated title, pages, images) are written by \<open>handleToolResult\<close> only
  and read by none of the handlers below; \<open>saveHistoryCalls\<close> counts the calls of the
  asynchronous \<open>saveHistoryRecord\<close>, which \<open>handleProgress\<close> starts and does not await.
\<close>

record view =
  topic :: string
  currentThinking :: string
  currentResponse :: string
  isGenerating :: bool
  isComplete :: bool
  hasError :: bool
  errorMessage :: string
  messages :: "message list"
  saveHistoryCalls :: nat

definition blank_message :: "role \<Rightarrow> string \<Rightarrow> message" where
  "blank_message r tm = \<lparr> m_role = r, m_content = None, m_thinking = None,
     m_thinkingExpanded = None, m_thinkingComplete = None, m_toolCall = None,
     m_toolResult = None, m_icon = None, m_time = tm \<rparr>"

text \<open>
  \<open>formatTime()\<close> reads the wall clock; every handler call takes the formatted time
  \<open>tm\<close> of that moment as an argument.
\<close>

definition addSystemMessage :: "string \<Rightarrow> string \<Rightarrow> string option \<Rightarrow> view \<Rightarrow> view" where
  "addSystemMessage tm c ic v =
     v\<lparr> messages := messages v @ [(blank_message System tm)\<lparr> m_content := Some c, m_icon := ic \<rparr>] \<rparr>"

text \<open>
  \<open>addAssistantMessage(msg)\<close> pushes \<open>{role, thinkingExpanded: false, time, ...msg}\<close>;
  \<open>upd\<close> is the spread of \<open>msg\<close> over these defaults.
\<close>

definition addAssistantMessage :: "string \<Rightarrow> (message \<Rightarrow> message) \<Rightarrow> view \<Rightarrow> view" where
  "addAssistantMessage tm upd v =
     v\<lparr> messages := messages v @ [upd ((blank_message Assistant tm)\<lparr> m_thinkingExpanded := Some False \<rparr>)] \<rparr>"

definition handleProgress :: "string \<Rightarrow> payload \<Rightarrow> view \<Rightarrow> view" where
  "handleProgress tm d v =
     (if p_type d = Some ''start'' then
        addSystemMessage tm (TXT_start_prefix @ js_or (p_topic d) (topic v)) (Some ICON_rocket)
          (v\<lparr> isGenerating := True \<rparr>)
      else if p_type d = Some ''complete'' then
        (addSystemMessage tm TXT_complete (Some ICON_check)
          (v\<lparr> isComplete := True, isGenerating := False \<rparr>))
          \<lparr> saveHistoryCalls := Suc (saveHistoryCalls v) \<rparr>
      else if p_type d = Some ''error'' then
        (let em = js_or (p_error d) (js_or (p_message d) TXT_default_error)
         in addSystemMessage tm (TXT_error_prefix @ em) (Some ICON_cross)
              (v\<lparr> hasError := True, isGenerating := False, errorMessage := em \<rparr>))
      else if p_type d = Some ''retry'' then
        addSystemMessage tm (js_or (p_message d) TXT_retrying) (Some ICON_retry) v
      else if p_type d = Some ''cancelled'' then
        addSystemMessage tm TXT_cancelled (Some ICON_forbidden)
          (v\<lparr> hasError := True, isGenerating := False, errorMessage := TXT_cancelled \<rparr>)
      else v)"

definition handleThought :: "string \<Rightarrow> payload \<Rightarrow> view \<Rightarrow> view" where
  "handleThought tm d v =
     (if p_type d = Some ''start'' then v\<lparr> currentThinking := [] \<rparr>
      else if p_type d = Some ''token'' then
        v\<lparr> currentThinking := currentThinking v @ js_str (p_token d) \<rparr>
      else if p_type d = Some ''end'' then
        (if currentThinking v \<noteq> [] \<or> truthy (p_content d) then
           addAssistantMessage tm
             (\<lambda>m. m\<lparr> m_thinking := Some (js_or (p_content d) (currentThinking v)),
                      m_thinkingExpanded := Some False, m_thinkingComplete := Some True \<rparr>) v
         else v) \<lparr> currentThinking := [] \<rparr>
      else v)"

definition handleResponse :: "string \<Rightarrow> payload \<Rightarrow> view \<Rightarrow> view" where
  "handleResponse tm d v =
     (if p_type d = Some ''token'' then
        v\<lparr> currentResponse := js_or (p_content d) (currentResponse v @ js_str (p_token d)) \<rparr>
      else if p_type d = Some ''end'' then
        (if currentResponse v \<noteq> [] \<or> truthy (p_content d) then
           addAssistantMessage tm
             (\<lambda>m. m\<lparr> m_content := Some (js_or (p_content d) (currentResponse v)) \<rparr>) v
         else v) \<lparr> currentResponse := [] \<rparr>
      else if truthy (p_content d) then
        addAssistantMessage tm (\<lambda>m. m\<lparr> m_content := p_content d \<rparr>) v
      else v)"

definition handleToolCall :: "string \<Rightarrow> payload \<Rightarrow> view \<Rightarrow> view" where
  "handleToolCall tm d v =
     addAssistantMessage tm
       (\<lambda>m. m\<lparr> m_toolCall := Some \<lparr> tc_name = p_tool d, tc_input = p_input d, tc_expanded = False \<rparr> \<rparr>) v"

text \<open>The message part of \<open>handleToolResult\<close>; what follows it in the source fills the preview.\<close>

definition handleToolResult :: "string \<Rightarrow> payload \<Rightarrow> view \<Rightarrow> view" where
  "handleToolResult tm d v =
     addAssistantMessage tm
       (\<lambda>m. m\<lparr> m_toolResult := Some \<lparr> tr_output = js_or_opt (p_output d) (p_error d),
                  tr_isError = (p_type d = Some ''error''), tr_expanded = False \<rparr> \<rparr>) v"

text \<open>The computed status values of the view.\<close>

definition statusClass :: "view \<Rightarrow> string" where
  "statusClass v =
     (if hasError v then ''error'' else if isComplete v then ''complete''
      else if isGenerating v then ''active'' else ''pending'')"

definition statusBadgeText :: "view \<Rightarrow> string" where
  "statusBadgeText v =
     (if hasError v then ''AGENT ERROR'' else if isComplete v then ''AGENT CREATION COMPLETE''
      else if isGenerating v then ''AGENT WORKING...'' else ''AGENT READY'')"

definition taskStatus :: "view \<Rightarrow> string" where
  "taskStatus v =
     (if isComplete v then ''Completed'' else if isGenerating v then ''In Progress'' else ''Ready'')"

text \<open>The events the view subscribes to in \<open>registerEventListeners\<close>, and their dispatch.\<close>

datatype agent_event =
    Progress payload
  | Thought payload
  | Response payload
  | ToolCall payload
  | ToolResult payload

fun dispatch :: "view \<Rightarrow> string \<times> agent_event \<Rightarrow> view" where
  "dispatch v (tm, Progress d) = handleProgress tm d v"
| "dispatch v (tm, Thought d) = handleThought tm d v"
| "dispatch v (tm, Response d) = handleResponse tm d v"
| "dispatch v (tm, ToolCall d) = handleToolCall tm d v"
| "dispatch v (tm, ToolResult d) = handleToolResult tm d v"

definition process :: "view \<Rightarrow> (string \<times> agent_event) list \<Rightarrow> view" where
  "process v evs = foldl dispatch v evs"

text \<open>The payloads of a well-formed stream: only the type, and the token where there is one.\<close>

definition no_payload :: payload where
  "no_payload = \<lparr> p_type = None, p_token = None, p_content = None, p_topic = None,
     p_error = None, p_message = None, p_tool = None, p_input = None, p_output = None \<rparr>"

definition ev_start :: payload where
  "ev_start = no_payload\<lparr> p_type := Some ''start'' \<rparr>"

definition ev_token :: "string \<Rightarrow> payload" where
  "ev_token a = no_payload\<lparr> p_type := Some ''token'', p_token := Some a \<rparr>"

definition ev_end :: payload where
  "ev_end = no_payload\<lparr> p_type := Some ''end'' \<rparr>"

text \<open>The view as \<open>handleNewTask\<close> leaves it, for a given topic.\<close>

definition fresh_view :: "string \<Rightarrow> view" where
  "fresh_view tp = \<lparr> topic = tp, currentThinking = [], currentResponse = [],
     isGenerating = False, isComplete = False, hasError = False, errorMessage = [],
     messages = [], saveHistoryCalls = 0 \<rparr>"

definition ev_error :: "string \<Rightarrow> payload" where
  "ev_error e = no_payload\<lparr> p_type := Some ''error'', p_error := Some e \<rparr>"

definition ev_complete :: payload where
  "ev_complete = no_payload\<lparr> p_type := Some ''complete'' \<rparr>"

text \<open>The finalized messages of the two stream kinds, as the \<open>end\<close> branches build them.\<close>

definition thought_message :: "string \<Rightarrow> string \<Rightarrow> message" where
  "thought_message tm c = (blank_message Assistant tm)\<lparr> m_thinking := Some c,
     m_thinkingExpanded := Some False, m_thinkingComplete := Some True \<rparr>"

definition response_message :: "string \<Rightarrow> string \<Rightarrow> message" where
  "response_message tm c = (blank_message Assistant tm)\<lparr> m_content := Some c,
     m_thinkingExpanded := Some False \<rparr>"


section \<open>The shared socket and the listener registry\<close>

text \<open>
  The transport object (a socket.io client socket) as far as the composable uses it: its
  \<open>connected\<close> property and the handlers subscribed on it, in subscription order. A
  callback is known by its identity, a value of the type \<open>'cb\<close>.
\<close>

record 'cb sock =
  sock_connected :: bool
  sock_handlers :: "(string \<times> 'cb) list"

text \<open>
  The emitter of the transport: \<open>on\<close> appends a handler, \<open>off(event, fn)\<close> removes the
  first handler equal to \<open>fn\<close>, \<open>off(event)\<close> removes every handler of the event.
\<close>

definition sock_on :: "string \<Rightarrow> 'cb \<Rightarrow> 'cb sock \<Rightarrow> 'cb sock" where
  "sock_on e cb s = s\<lparr> sock_handlers := sock_handlers s @ [(e, cb)] \<rparr>"

definition sock_off :: "string \<Rightarrow> 'cb option \<Rightarrow> 'cb sock \<Rightarrow> 'cb sock" where
  "sock_off e cbo s =
     (case cbo of
        Some cb \<Rightarrow> s\<lparr> sock_handlers := remove1 (e, cb) (sock_handlers s) \<rparr>
      | None \<Rightarrow> s\<lparr> sock_handlers := filter (\<lambda>h. fst h \<noteq> e) (sock_handlers s) \<rparr>)"

text \<open>
  The module-level state of \<open>useSocket.ts\<close>, shared by every caller of \<open>useSocket()\<close>.
  A reference count is a JavaScript number that only ever moves by one; it is an \<open>int\<close>.
\<close>

record 'cb shared =
  socket :: "'cb sock option"
  connected :: bool
  connectionRefCount :: int
  globalEventListeners :: "string \<rightharpoonup> ('cb \<rightharpoonup> int)"

text \<open>
  The state private to one call of \<open>useSocket()\<close> (one owner). \<open>componentListeners\<close> is
  a \<open>Map<string, Set<Function>>\<close>; both iterate in insertion order, so the map is a list of
  entries with distinct keys and each set a list without repetition.
\<close>

record 'cb owner =
  componentMounted :: bool
  componentListeners :: "(string \<times> 'cb list) list"

definition set_add :: "'a \<Rightarrow> 'a list \<Rightarrow> 'a list" where
  "set_add x xs = (if x \<in> set xs then xs else xs @ [x])"

definition cl_has :: "(string \<times> 'cb list) list \<Rightarrow> string \<Rightarrow> bool" where
  "cl_has cl e = (e \<in> fst ` set cl)"

text \<open>\<open>componentListeners.get(event)?.f()\<close>: mutate the set stored under the key, if any.\<close>

definition cl_update :: "string \<Rightarrow> ('cb list \<Rightarrow> 'cb list) \<Rightarrow> (string \<times> 'cb list) list \<Rightarrow> (string \<times> 'cb list) list" where
  "cl_update e f cl = map (\<lambda>(e', cs). if e' = e then (e', f cs) else (e', cs)) cl"

definition on :: "string \<Rightarrow> 'cb \<Rightarrow> 'cb shared \<times> 'cb owner \<Rightarrow> 'cb shared \<times> 'cb owner" where
  "on e cb st =
     (case st of (g, c) \<Rightarrow>
       (case socket g of
          None \<Rightarrow> (g, c)
        | Some s \<Rightarrow>
           (let eventCallbacks = (case globalEventListeners g e of None \<Rightarrow> Map.empty | Some m \<Rightarrow> m);
                g' = (case eventCallbacks cb of
                        Some count \<Rightarrow>
                          g\<lparr> globalEventListeners := (globalEventListeners g)(e \<mapsto> eventCallbacks(cb \<mapsto> count + 1)) \<rparr>
                      | None \<Rightarrow>
                          g\<lparr> globalEventListeners := (globalEventListeners g)(e \<mapsto> eventCallbacks(cb \<mapsto> 1)),
                             socket := Some (sock_on e cb s) \<rparr>);
                cl = (if cl_has (componentListeners c) e then componentListeners c
                      else componentListeners c @ [(e, [])])
            in (g', c\<lparr> componentListeners := cl_update e (set_add cb) cl \<rparr>))))"

definition off :: "string \<Rightarrow> 'cb option \<Rightarrow> 'cb shared \<times> 'cb owner \<Rightarrow> 'cb shared \<times> 'cb owner" where
  "off e cbo st =
     (case st of (g, c) \<Rightarrow>
       (case socket g of
          None \<Rightarrow> (g, c)
        | Some s \<Rightarrow>
           (case cbo of
              Some cb \<Rightarrow>
                (let g' = (case globalEventListeners g e of
                             None \<Rightarrow> g
                           | Some eventCallbacks \<Rightarrow>
                               (case eventCallbacks cb of
                                  None \<Rightarrow> g
                                | Some count \<Rightarrow>
                                    if count > 1 then
                                      g\<lparr> globalEventListeners :=
                                           (globalEventListeners g)(e \<mapsto> eventCallbacks(cb \<mapsto> count - 1)) \<rparr>
                                    else
                                      g\<lparr> globalEventListeners :=
                                           (globalEventListeners g)(e \<mapsto> eventCallbacks(cb := None)),
                                         socket := Some (sock_off e (Some cb) s) \<rparr>))
                 in (g', c\<lparr> componentListeners := cl_update e (removeAll cb) (componentListeners c) \<rparr>))
            | None \<Rightarrow>
                (g\<lparr> socket := Some (sock_off e None s),
                    globalEventListeners := (globalEventListeners g)(e := None) \<rparr>,
                 c\<lparr> componentListeners := filter (\<lambda>en. fst en \<noteq> e) (componentListeners c) \<rparr>))))"

text \<open>
  \<open>cleanupComponentListeners\<close> walks the owner's map and, in every set, calls
  \<open>off(event, callback)\<close>. That call deletes from the set only the callback being visited
  and never a key of the map, so the walk visits exactly the pairs present when it starts.
\<close>

definition cl_pairs :: "(string \<times> 'cb list) list \<Rightarrow> (string \<times> 'cb) list" where
  "cl_pairs cl = concat (map (\<lambda>(e, cs). map (Pair e) cs) cl)"

definition cleanupComponentListeners :: "'cb shared \<times> 'cb owner \<Rightarrow> 'cb shared \<times> 'cb owner" where
  "cleanupComponentListeners st =
     (case foldl (\<lambda>st' (e, cb). off e (Some cb) st') st (cl_pairs (componentListeners (snd st))) of
        (g, c) \<Rightarrow> (g, c\<lparr> componentListeners := [] \<rparr>))"

text \<open>What the registry and the transport hold for a pair.\<close>

definition bound :: "'cb shared \<Rightarrow> string \<Rightarrow> 'cb \<Rightarrow> bool" where
  "bound g e cb = (case globalEventListeners g e of None \<Rightarrow> False | Some m \<Rightarrow> m cb \<noteq> None)"

definition refcount :: "'cb shared \<Rightarrow> string \<Rightarrow> 'cb \<Rightarrow> int" where
  "refcount g e cb =
     (case globalEventListeners g e of None \<Rightarrow> 0
      | Some m \<Rightarrow> (case m cb of None \<Rightarrow> 0 | Some n \<Rightarrow> n))"

definition subscriptions :: "'cb shared \<Rightarrow> string \<Rightarrow> 'cb \<Rightarrow> nat" where
  "subscriptions g e cb =
     (case socket g of None \<Rightarrow> 0 | Some s \<Rightarrow> count_list (sock_handlers s) (e, cb))"

definition registry_ok :: "'cb shared \<Rightarrow> bool" where
  "registry_ok g = (\<forall>e cb. 0 \<le> refcount g e cb \<and> subscriptions g e cb \<le> 1)"

text \<open>
  A state right after the first \<open>connect()\<close> with one mounted owner: a connected socket,
  nothing registered. Callbacks are numbered.
\<close>

definition g0 :: "nat shared" where
  "g0 = \<lparr> socket = Some \<lparr> sock_connected = True, sock_handlers = [] \<rparr>, connected = True,
          connectionRefCount = 1, globalEventListeners = Map.empty \<rparr>"

definition c0 :: "nat owner" where
  "c0 = \<lparr> componentMounted = True, componentListeners = [] \<rparr>"

text \<open>The calls \<open>on(e, cb)\<close> that one owner makes, in order.\<close>

definition register :: "(string \<times> 'cb) list \<Rightarrow> 'cb shared \<times> 'cb owner \<Rightarrow> 'cb shared \<times> 'cb owner" where
  "register ops st = foldl (\<lambda>st' (e, cb). on e cb st') st ops"

text \<open>What being a \<open>Map\<close> of \<open>Set\<close>s means for the list that stands for it.\<close>

definition cl_wf :: "(string \<times> 'cb list) list \<Rightarrow> bool" where
  "cl_wf cl = (distinct (map fst cl) \<and> (\<forall>en \<in> set cl. distinct (snd en)))"


section \<open>Owners mounting and unmounting\<close>

text \<open>
  The whole client: the shared state, the private state of every owner, and the teardown
  timers that are pending, each with the time (in ms) at which it fires.
\<close>

record ('o, 'cb) world =
  shared :: "'cb shared"
  owners :: "'o \<Rightarrow> 'cb owner"
  timers :: "nat list"

definition disconnect :: "'cb shared \<Rightarrow> 'cb shared" where
  "disconnect g = (case socket g of None \<Rightarrow> g | Some s \<Rightarrow> g\<lparr> socket := None, connected := False \<rparr>)"

definition onMounted :: "'o \<Rightarrow> ('o, 'cb) world \<Rightarrow> ('o, 'cb) world" where
  "onMounted ow w =
     w\<lparr> owners := (owners w)(ow := (owners w ow)\<lparr> componentMounted := True \<rparr>),
        shared := (shared w)\<lparr> connectionRefCount := connectionRefCount (shared w) + 1 \<rparr> \<rparr>"

text \<open>\<open>onUnmounted\<close> at the time \<open>now\<close>; the timer it sets fires 5000 ms later.\<close>

definition onUnmounted :: "nat \<Rightarrow> 'o \<Rightarrow> ('o, 'cb) world \<Rightarrow> ('o, 'cb) world" where
  "onUnmounted now ow w =
     (if componentMounted (owners w ow) then
        (case cleanupComponentListeners
                ((shared w)\<lparr> connectionRefCount := connectionRefCount (shared w) - 1 \<rparr>,
                 (owners w ow)\<lparr> componentMounted := False \<rparr>) of
           (g, c) \<Rightarrow>
             w\<lparr> shared := g, owners := (owners w)(ow := c),
                timers := (if connectionRefCount g = 0 then timers w @ [now + 5000] else timers w) \<rparr>)
      else w)"

text \<open>The callback of the teardown timer.\<close>

definition teardown :: "('o, 'cb) world \<Rightarrow> ('o, 'cb) world" where
  "teardown w =
     (if connectionRefCount (shared w) = 0 \<and> socket (shared w) \<noteq> None
      then w\<lparr> shared := disconnect (shared w) \<rparr> else w)"

text \<open>
  The event loop. \<open>fire_due t\<close> runs the callbacks of the timers due at time \<open>t\<close> or
  before, in the order they were set; \<open>run\<close> takes the lifecycle hooks in the order they
  are called, each with its time, and lets the timers that are due fire first.
\<close>

definition fire_due :: "nat \<Rightarrow> ('o, 'cb) world \<Rightarrow> ('o, 'cb) world" where
  "fire_due t w =
     foldl (\<lambda>w' d. teardown w') (w\<lparr> timers := filter (\<lambda>d. t < d) (timers w) \<rparr>)
       (filter (\<lambda>d. d \<le> t) (timers w))"

datatype 'o lifecycle = Mount 'o | Unmount 'o

fun run :: "('o, 'cb) world \<Rightarrow> (nat \<times> 'o lifecycle) list \<Rightarrow> ('o, 'cb) world" where
  "run w [] = w"
| "run w ((t, Mount ow) # tr) = run (onMounted ow (fire_due t w)) tr"
| "run w ((t, Unmount ow) # tr) = run (onUnmounted t ow (fire_due t w)) tr"

text \<open>Every mounted owner has been counted.\<close>

definition count_covers_mounted :: "('o, 'cb) world \<Rightarrow> bool" where
  "count_covers_mounted w =
     (finite {ow. componentMounted (owners w ow)}
      \<and> int (card {ow. componentMounted (owners w ow)}) \<le> connectionRefCount (shared w))"

text \<open>A connected client on which no owner is mounted.\<close>

definition w0 :: "(nat, nat) world" where
  "w0 = \<lparr> shared = g0\<lparr> connectionRefCount := 0 \<rparr>,
          owners = (\<lambda>_. \<lparr> componentMounted = False, componentListeners = [] \<rparr>), timers = [] \<rparr>"


section \<open>Requests that wait for an acknowledgment\<close>

text \<open>
  The error texts, as UTF-8 bytes: "WebSocket not connected", "sending the instruction
  failed", "sending the instruction timed out".
\<close>

definition TXT_not_connected :: string where
  "TXT_not_connected = [CHR 0x57, CHR 0x65, CHR 0x62, CHR 0x53, CHR 0x6F, CHR 0x63, CHR 0x6B, CHR 0x65,
     CHR 0x74, CHR 0x20, CHR 0xE6, CHR 0x9C, CHR 0xAA, CHR 0xE8, CHR 0xBF, CHR 0x9E, CHR 0xE6, CHR 0x8E,
     CHR 0xA5]"

definition TXT_instruction_failed :: string where
  "TXT_instruction_failed = [CHR 0xE5, CHR 0x8F, CHR 0x91, CHR 0xE9, CHR 0x80, CHR 0x81, CHR 0xE6,
     CHR 0x8C, CHR 0x87, CHR 0xE4, CHR 0xBB, CHR 0xA4, CHR 0xE5, CHR 0xA4, CHR 0xB1, CHR 0xE8, CHR 0xB4,
     CHR 0xA5]"

definition TXT_instruction_timeout :: string where
  "TXT_instruction_timeout = [CHR 0xE5, CHR 0x8F, CHR 0x91, CHR 0xE9, CHR 0x80, CHR 0x81, CHR 0xE6,
     CHR 0x8C, CHR 0x87, CHR 0xE4, CHR 0xBB, CHR 0xA4, CHR 0xE8, CHR 0xB6, CHR 0x85, CHR 0xE6, CHR 0x97,
     CHR 0xB6]"

text \<open>
  The payload of an acknowledgment, and an incoming event with its arrival time in ms
  after the call and its name. Time is that of a logical clock: a timer set with a delay
  fires when the clock reaches the delay, after the events that arrived earlier and before
  those that arrive at that time or later.
\<close>

record ack =
  a_task_id :: "string option"
  a_error :: "string option"

type_synonym incoming = "nat \<times> string \<times> ack"

text \<open>
  A promise settles once: the first call of \<open>resolve\<close> or \<open>reject\<close> fixes the outcome, a
  later call has no effect. \<open>Rejected m\<close> stands for rejection with \<open>new Error(m)\<close>. A
  request keeps the outcome with the time of settlement, the events on which its own
  closures are still subscribed on the socket, what it emitted, and how many calls of
  \<open>resolve\<close> or \<open>reject\<close> came too late.
\<close>

datatype 'r outcome = Resolved 'r | Rejected string

record 'r request =
  settled :: "('r outcome \<times> nat) option"
  listening :: "string list"
  sent :: "(string \<times> string list) list"
  ignored :: nat

definition settle :: "'r outcome \<Rightarrow> nat \<Rightarrow> 'r request \<Rightarrow> 'r request" where
  "settle out t p =
     (case settled p of None \<Rightarrow> p\<lparr> settled := Some (out, t) \<rparr>
      | Some _ \<Rightarrow> p\<lparr> ignored := Suc (ignored p) \<rparr>)"

text \<open>\<open>socket.value?.connected\<close>\<close>

definition live :: "'cb shared \<Rightarrow> bool" where
  "live g = (case socket g of None \<Rightarrow> False | Some s \<Rightarrow> sock_connected s)"

subsection \<open>joinTask\<close>

text \<open>The body of the promise up to the point where it waits.\<close>

definition joinTask_start :: "'cb shared \<Rightarrow> string \<Rightarrow> unit request" where
  "joinTask_start g taskId =
     (if \<not> live g then
        \<lparr> settled = Some (Rejected TXT_not_connected, 0), listening = [], sent = [], ignored = 0 \<rparr>
      else
        \<lparr> settled = None, listening = [''joined''], sent = [(''join_task'', [taskId])], ignored = 0 \<rparr>)"

definition onJoined :: "string \<Rightarrow> nat \<Rightarrow> ack \<Rightarrow> unit request \<Rightarrow> unit request" where
  "onJoined taskId t d p =
     (if a_task_id d = Some taskId
      then settle (Resolved ()) t (p\<lparr> listening := remove1 ''joined'' (listening p) \<rparr>)
      else p)"

definition joinTask_timeout :: "nat \<Rightarrow> unit request \<Rightarrow> unit request" where
  "joinTask_timeout t p = settle (Resolved ()) t (p\<lparr> listening := remove1 ''joined'' (listening p) \<rparr>)"

text \<open>The socket hands an incoming event to the closure only while it is subscribed.\<close>

definition joinTask_deliver :: "string \<Rightarrow> unit request \<Rightarrow> incoming \<Rightarrow> unit request" where
  "joinTask_deliver taskId p ev =
     (case ev of (t, name, d) \<Rightarrow>
        if name = ''joined'' \<and> ''joined'' \<in> set (listening p) then onJoined taskId t d p else p)"

text \<open>
  The whole life of the request: the events that arrive before 2000 ms, the timer at
  2000 ms, then whatever arrives later. The connection is the same one throughout.
\<close>

definition joinTask :: "'cb shared \<Rightarrow> string \<Rightarrow> incoming list \<Rightarrow> unit request" where
  "joinTask g taskId inc =
     (if \<not> live g then joinTask_start g taskId
      else foldl (joinTask_deliver taskId)
             (joinTask_timeout 2000
               (foldl (joinTask_deliver taskId) (joinTask_start g taskId)
                  (takeWhile (\<lambda>ev. fst ev < 2000) inc)))
             (dropWhile (\<lambda>ev. fst ev < 2000) inc))"

subsection \<open>sendInstruction\<close>

definition sendInstruction_start :: "'cb shared \<Rightarrow> string \<Rightarrow> string \<Rightarrow> ack request" where
  "sendInstruction_start g taskId instruction =
     (if \<not> live g then
        \<lparr> settled = Some (Rejected TXT_not_connected, 0), listening = [], sent = [], ignored = 0 \<rparr>
      else
        \<lparr> settled = None, listening = [''instruction_received'', ''instruction_error''],
          sent = [(''send_instruction'', [taskId, instruction])], ignored = 0 \<rparr>)"

definition unlisten :: "'r request \<Rightarrow> 'r request" where
  "unlisten p = p\<lparr> listening := remove1 ''instruction_error''
                      (remove1 ''instruction_received'' (listening p)) \<rparr>"

definition onReceived :: "string \<Rightarrow> nat \<Rightarrow> ack \<Rightarrow> ack request \<Rightarrow> ack request" where
  "onReceived taskId t d p =
     (if a_task_id d = Some taskId then settle (Resolved d) t (unlisten p) else p)"

definition onError :: "string \<Rightarrow> nat \<Rightarrow> ack \<Rightarrow> ack request \<Rightarrow> ack request" where
  "onError taskId t d p =
     (if a_task_id d = Some taskId
      then settle (Rejected (js_or (a_error d) TXT_instruction_failed)) t (unlisten p)
      else p)"

definition sendInstruction_timeout :: "nat \<Rightarrow> ack request \<Rightarrow> ack request" where
  "sendInstruction_timeout t p = settle (Rejected TXT_instruction_timeout) t (unlisten p)"

definition sendInstruction_deliver :: "string \<Rightarrow> ack request \<Rightarrow> incoming \<Rightarrow> ack request" where
  "sendInstruction_deliver taskId p ev =
     (case ev of (t, name, d) \<Rightarrow>
        if name = ''instruction_received'' \<and> ''instruction_received'' \<in> set (listening p)
          then onReceived taskId t d p
        else if name = ''instruction_error'' \<and> ''instruction_error'' \<in> set (listening p)
          then onError taskId t d p
        else p)"

definition sendInstruction :: "'cb shared \<Rightarrow> string \<Rightarrow> string \<Rightarrow> incoming list \<Rightarrow> ack request" where
  "sendInstruction g taskId instruction inc =
     (if \<not> live g then sendInstruction_start g taskId instruction
      else foldl (sendInstruction_deliver taskId)
             (sendInstruction_timeout 30000
               (foldl (sendInstruction_deliver taskId) (sendInstruction_start g taskId instruction)
                  (takeWhile (\<lambda>ev. fst ev < 30000) inc)))
             (dropWhile (\<lambda>ev. fst ev < 30000) inc))"

text \<open>
  The first answer to the instruction for the task among the events that arrive before
  30000 ms, if there is one.
\<close>

definition answers :: "string \<Rightarrow> incoming \<Rightarrow> bool" where
  "answers taskId ev =
     ((fst (snd ev) = ''instruction_received'' \<or> fst (snd ev) = ''instruction_error'')
      \<and> a_task_id (snd (snd ev)) = Some taskId)"

definition first_answer :: "string \<Rightarrow> incoming list \<Rightarrow> incoming option" where
  "first_answer taskId inc = find (answers taskId) (takeWhile (\<lambda>ev. fst ev < 30000) inc)"

definition joined_for :: "string \<Rightarrow> incoming \<Rightarrow> bool" where
  "joined_for taskId ev = (fst (snd ev) = ''joined'' \<and> a_task_id (snd (snd ev)) = Some taskId)"

definition first_joined :: "string \<Rightarrow> incoming list \<Rightarrow> incoming option" where
  "first_joined taskId inc = find (joined_for taskId) (takeWhile (\<lambda>ev. fst ev < 2000) inc)"

text \<open>What the first answer makes of the promise.\<close>

definition answer_outcome :: "incoming \<Rightarrow> ack outcome" where
  "answer_outcome ev =
     (if fst (snd ev) = ''instruction_received'' then Resolved (snd (snd ev))
      else Rejected (js_or (a_error (snd (snd ev))) TXT_instruction_failed))"

text \<open>A positive and a negative acknowledgment for a task.\<close>

definition ack_for :: "string \<Rightarrow> ack" where
  "ack_for taskId = \<lparr> a_task_id = Some taskId, a_error = None \<rparr>"

definition nack_for :: "string \<Rightarrow> string \<Rightarrow> ack" where
  "nack_for taskId m = \<lparr> a_task_id = Some taskId, a_error = Some m \<rparr>"


section \<open>Reconnection\<close>

definition MAX_RECONNECT_ATTEMPTS :: int where
  "MAX_RECONNECT_ATTEMPTS = 5"

definition RECONNECT_DELAY :: nat where
  "RECONNECT_DELAY = 2000"

text \<open>
  How an awaited promise ends: fulfilled, rejected (the \<open>await\<close> throws), or never settled.
  And how a call of an \<open>async\<close> function ends.
\<close>

datatype await = Fulfilled | Failed | Never

datatype 'a completion = Returns 'a | Throws string | Hangs

text \<open>
  \<open>connect()\<close> on the shared state. On a connected socket it resolves at once. Otherwise
  it replaces the socket by a new one; \<open>r\<close> is what the transport then does: it connects
  (the handler sets the flag and resolves), it fails (a \<open>connect_error\<close>, or the 10 s
  timeout with the flag unset; either rejects), or neither ever settles the promise.
\<close>

definition connect :: "await \<Rightarrow> 'cb shared \<Rightarrow> await \<times> 'cb shared" where
  "connect r g =
     (if live g then (Fulfilled, g)
      else (case r of
              Fulfilled \<Rightarrow> (Fulfilled, g\<lparr> socket := Some \<lparr> sock_connected = True, sock_handlers = [] \<rparr>,
                                         connected := True \<rparr>)
            | Failed \<Rightarrow> (Failed, g\<lparr> socket := Some \<lparr> sock_connected = False, sock_handlers = [] \<rparr> \<rparr>)
            | Never \<Rightarrow> (Never, g\<lparr> socket := Some \<lparr> sock_connected = False, sock_handlers = [] \<rparr> \<rparr>)))"

text \<open>
  The state of \<open>useSocketReconnect\<close>, with the shared state it acts on, the number of
  calls of \<open>connect()\<close> it has made and the time it has spent waiting before them.
\<close>

record 'cb supervisor =
  reconnectAttempts :: int
  isReconnecting :: bool
  currentTaskId :: string
  link :: "'cb shared"
  connectCalls :: nat
  waited :: nat

text \<open>
  A call of \<open>attemptReconnect\<close> is taken on its own: while it waits, nothing else writes
  the counter. The environment of a try: what the transport answers to the \<open>connect()\<close> of that try
  and the events that arrive while \<open>joinTask\<close> waits.
\<close>

type_synonym environment = "nat \<Rightarrow> await \<times> incoming list"

text \<open>
  The \<open>try\<close> block of \<open>attemptReconnect\<close>, entered with the counter already incremented:
  \<open>Fulfilled\<close> when it reaches \<open>return true\<close>, \<open>Failed\<close> when an \<open>await\<close> throws and the
  \<open>catch\<close> takes over, \<open>Never\<close> when an awaited promise stays pending.
\<close>

definition try_reconnect :: "await \<times> incoming list \<Rightarrow> 'cb supervisor \<Rightarrow> await \<times> 'cb supervisor" where
  "try_reconnect answer s =
     (case connect (fst answer) (link s) of
        (Never, g) \<Rightarrow> (Never, s\<lparr> link := g, connectCalls := Suc (connectCalls s),
                                  waited := waited s + RECONNECT_DELAY \<rparr>)
      | (Failed, g) \<Rightarrow> (Failed, s\<lparr> link := g, connectCalls := Suc (connectCalls s),
                                    waited := waited s + RECONNECT_DELAY \<rparr>)
      | (Fulfilled, g) \<Rightarrow>
          (let s' = s\<lparr> link := g, connectCalls := Suc (connectCalls s),
                       waited := waited s + RECONNECT_DELAY \<rparr>;
               done = s'\<lparr> reconnectAttempts := 0, isReconnecting := False \<rparr>
           in if currentTaskId s \<noteq> [] then
                (case settled (joinTask g (currentTaskId s) (snd answer)) of
                   None \<Rightarrow> (Never, s')
                 | Some (Rejected m, t) \<Rightarrow> (Failed, s')
                 | Some (Resolved u, t) \<Rightarrow> (Fulfilled, done))
              else (Fulfilled, done)))"

function attemptReconnect :: "environment \<Rightarrow> 'cb supervisor \<Rightarrow> bool completion \<times> 'cb supervisor" where
  "attemptReconnect env s =
     (if MAX_RECONNECT_ATTEMPTS \<le> reconnectAttempts s then
        (Returns False, s\<lparr> isReconnecting := False \<rparr>)
      else
        (case try_reconnect (env (connectCalls s))
                (s\<lparr> isReconnecting := True, reconnectAttempts := reconnectAttempts s + 1 \<rparr>) of
           (Fulfilled, s') \<Rightarrow> (Returns True, s')
         | (Failed, s') \<Rightarrow> attemptReconnect env s'
         | (Never, s') \<Rightarrow> (Hangs, s')))"
  by pat_completeness auto

termination attemptReconnect
  apply (relation "measure (\<lambda>(env, s). nat (MAX_RECONNECT_ATTEMPTS - reconnectAttempts s))")
   apply simp
  apply (auto simp add: try_reconnect_def Let_def
      split: prod.splits await.splits option.splits outcome.splits if_splits)
  done

declare attemptReconnect.simps [simp del]

text \<open>What a call of \<open>attemptReconnect\<close> guarantees about the state \<open>s\<close> it starts from.\<close>

definition reconnect_post :: "'cb supervisor \<Rightarrow> bool completion \<times> 'cb supervisor \<Rightarrow> bool" where
  "reconnect_post s res =
     ((\<forall>m. fst res \<noteq> Throws m)
      \<and> connectCalls s \<le> connectCalls (snd res)
      \<and> connectCalls (snd res) \<le> connectCalls s + nat (MAX_RECONNECT_ATTEMPTS - reconnectAttempts s)
      \<and> (fst res = Returns True \<longrightarrow>
            reconnectAttempts (snd res) = 0 \<and> \<not> isReconnecting (snd res) \<and> live (link (snd res)))
      \<and> (fst res = Returns False \<longrightarrow>
            \<not> isReconnecting (snd res)
            \<and> reconnectAttempts (snd res) = max MAX_RECONNECT_ATTEMPTS (reconnectAttempts s)
            \<and> connectCalls (snd res) = connectCalls s + nat (MAX_RECONNECT_ATTEMPTS - reconnectAttempts s)
            \<and> connected (link (snd res)) = connected (link s)
            \<and> (\<not> live (link s) \<longrightarrow> \<not> live (link (snd res)))))"

text \<open>
  Sample inputs: a supervisor with the task \<open>t1\<close> on a connection that has just been
  lost, a transport that refuses every connection, and one that accepts the third.
\<close>

definition s_lost :: "nat supervisor" where
  "s_lost = \<lparr> reconnectAttempts = 0, isReconnecting = False, currentTaskId = ''t1'',
       link = g0\<lparr> socket := Some \<lparr> sock_connected = False, sock_handlers = [] \<rparr>, connected := False \<rparr>,
       connectCalls = 0, waited = 0 \<rparr>"

definition env_refusing :: environment where
  "env_refusing = (\<lambda>k. (Failed, []))"

definition env_third :: environment where
  "env_third = (\<lambda>k. (if k = 2 then Fulfilled else Failed, []))"

section \<open>Stream assembly\<close>

text \<open>
  Claim C9. For either stream kind, an \<open>end\<close> event that arrives while the buffer of
  that kind is empty and that carries no content of its own produces no message: the
  message list is left as it was (and the buffer stays empty).
\<close>

theorem C9_end_on_empty_buffer:
  assumes "p_type d = Some ''end''" and "\<not> truthy (p_content d)"
  shows "(currentThinking v = [] \<longrightarrow>
            messages (handleThought tm d v) = messages v \<and> currentThinking (handleThought tm d v) = [])
       \<and> (currentResponse v = [] \<longrightarrow>
            messages (handleResponse tm d v) = messages v \<and> currentResponse (handleResponse tm d v) = [])"
  using assms by (simp add: handleThought_def handleResponse_def)

theorem C9_end_on_empty_buffer_witness:
  "p_type ev_end = Some ''end'' \<and> \<not> truthy (p_content ev_end)
   \<and> currentThinking (fresh_view ''t'') = [] \<and> currentResponse (fresh_view ''t'') = []
   \<and> messages (handleThought ''12:00:00'' ev_end (fresh_view ''t'')) = []
   \<and> messages (handleResponse ''12:00:00'' ev_end (fresh_view ''t'')) = []"
  using C9_end_on_empty_buffer [where d = ev_end and tm = "''12:00:00''" and v = "fresh_view ''t''"]
  by (simp add: ev_end_def no_payload_def truthy_def fresh_view_def)


lemma process_Nil: "process v [] = v"
  by (simp add: process_def)

lemma process_Cons: "process v (e # evs) = process (dispatch v e) evs"
  by (simp add: process_def)

lemma thought_stream:
  "process v [(t1, Thought ev_start), (t2, Thought (ev_token a)), (t3, Thought (ev_token b)),
              (t4, Thought ev_end)]
   = (if a @ b \<noteq> [] then v\<lparr> currentThinking := [], messages := messages v @ [thought_message t4 (a @ b)] \<rparr>
      else v\<lparr> currentThinking := [] \<rparr>)"
  by (simp add: process_Cons process_Nil handleThought_def ev_start_def ev_token_def ev_end_def
      no_payload_def js_str_def js_or_def truthy_def addAssistantMessage_def thought_message_def)

lemma response_stream:
  "currentResponse v = [] \<Longrightarrow>
   process v [(t1, Response ev_start), (t2, Response (ev_token a)), (t3, Response (ev_token b)),
              (t4, Response ev_end)]
   = (if a @ b \<noteq> [] then v\<lparr> currentResponse := [], messages := messages v @ [response_message t4 (a @ b)] \<rparr>
      else v)"
  by (simp add: process_Cons process_Nil handleResponse_def ev_start_def ev_token_def ev_end_def
      no_payload_def js_str_def js_or_def truthy_def addAssistantMessage_def response_message_def)

text \<open>
  Claim C1, as the code has it. The \<open>end\<close> branch of either handler appends a message
  only under the guard \<open>if (buffer || data.content)\<close>, and the empty string is falsy. So the
  sequence start, token(a), token(b), end (payloads with nothing but the type and the
  token), met with an empty buffer, appends exactly one message of that kind with content
  \<open>a + b\<close> when \<open>a + b\<close> is not empty, appends none when \<open>a + b\<close> is empty, and leaves
  the buffer empty in both cases.
\<close>

theorem C1_stream_assembled:
  "(a @ b \<noteq> [] \<longrightarrow>
      process v [(t1, Thought ev_start), (t2, Thought (ev_token a)), (t3, Thought (ev_token b)),
                 (t4, Thought ev_end)]
        = v\<lparr> currentThinking := [], messages := messages v @ [thought_message t4 (a @ b)] \<rparr>
    \<and> (currentResponse v = [] \<longrightarrow>
      process v [(t1, Response ev_start), (t2, Response (ev_token a)), (t3, Response (ev_token b)),
                 (t4, Response ev_end)]
        = v\<lparr> currentResponse := [], messages := messages v @ [response_message t4 (a @ b)] \<rparr>))
   \<and> (a @ b = [] \<longrightarrow>
      messages (process v [(t1, Thought ev_start), (t2, Thought (ev_token a)),
                 (t3, Thought (ev_token b)), (t4, Thought ev_end)]) = messages v
    \<and> currentThinking (process v [(t1, Thought ev_start), (t2, Thought (ev_token a)),
                 (t3, Thought (ev_token b)), (t4, Thought ev_end)]) = []
    \<and> (currentResponse v = [] \<longrightarrow>
      process v [(t1, Response ev_start), (t2, Response (ev_token a)), (t3, Response (ev_token b)),
                 (t4, Response ev_end)] = v))"
proof (cases "a @ b = []")
  case True
  then show ?thesis
    using thought_stream [of v t1 t2 a t3 b t4] response_stream [of v t1 t2 a t3 b t4]
    by (simp del: append_is_Nil_conv)
next
  case False
  then show ?thesis
    using thought_stream [of v t1 t2 a t3 b t4] response_stream [of v t1 t2 a t3 b t4]
    by (simp del: append_is_Nil_conv)
qed

theorem C1_stream_assembled_witness:
  "''Hel'' @ ''lo'' \<noteq> [] \<and> currentResponse (fresh_view ''t'') = []
   \<and> messages (process (fresh_view ''t'') [(''09:00:00'', Thought ev_start),
        (''09:00:01'', Thought (ev_token ''Hel'')), (''09:00:02'', Thought (ev_token ''lo'')),
        (''09:00:03'', Thought ev_end)]) = [thought_message ''09:00:03'' ''Hello'']
   \<and> messages (process (fresh_view ''t'') [(''09:00:00'', Response ev_start),
        (''09:00:01'', Response (ev_token ''Hel'')), (''09:00:02'', Response (ev_token ''lo'')),
        (''09:00:03'', Response ev_end)]) = [response_message ''09:00:03'' ''Hello'']
   \<and> ([] :: string) @ [] = []
   \<and> process (fresh_view ''t'') [(''09:00:00'', Response ev_start),
        (''09:00:01'', Response (ev_token [])), (''09:00:02'', Response (ev_token [])),
        (''09:00:03'', Response ev_end)] = fresh_view ''t''"
  using C1_stream_assembled [where a = "''Hel''" and b = "''lo''" and v = "fresh_view ''t''"
      and ?t1.0 = "''09:00:00''" and ?t2.0 = "''09:00:01''" and ?t3.0 = "''09:00:02''"
      and ?t4.0 = "''09:00:03''"]
    C1_stream_assembled [where a = "[]" and b = "[]" and v = "fresh_view ''t''"
      and ?t1.0 = "''09:00:00''" and ?t2.0 = "''09:00:01''" and ?t3.0 = "''09:00:02''"
      and ?t4.0 = "''09:00:03''"]
  by (simp add: fresh_view_def)

text \<open>
  Claim C1 as the specification words it fails: with two empty tokens the sequence
  start, token(""), token(""), end produces no message at all, for either kind.
\<close>

theorem C1_empty_tokens_counterexample:
  "messages (process (fresh_view ''t'') [(''09:00:00'', Thought ev_start),
        (''09:00:01'', Thought (ev_token [])), (''09:00:02'', Thought (ev_token [])),
        (''09:00:03'', Thought ev_end)]) = []
   \<and> messages (process (fresh_view ''t'') [(''09:00:00'', Response ev_start),
        (''09:00:01'', Response (ev_token [])), (''09:00:02'', Response (ev_token [])),
        (''09:00:03'', Response ev_end)]) = []"
  by (simp add: process_Cons process_Nil handleThought_def handleResponse_def ev_start_def
      ev_token_def ev_end_def no_payload_def js_str_def js_or_def truthy_def fresh_view_def)

section \<open>Task status\<close>

lemma hasError_dispatch: "hasError v \<Longrightarrow> hasError (dispatch v e)"
proof (cases e)
  case (Pair tm ev)
  assume "hasError v"
  then show ?thesis
    unfolding Pair
    by (cases ev)
      (simp_all add: handleProgress_def handleThought_def handleResponse_def handleToolCall_def
        handleToolResult_def addSystemMessage_def addAssistantMessage_def Let_def)
qed

lemma hasError_process: "hasError v \<Longrightarrow> hasError (process v evs)"
  by (induction evs arbitrary: v) (simp_all add: process_Nil process_Cons hasError_dispatch)

lemma hasError_after_error:
  "p_type d = Some ''error'' \<or> p_type d = Some ''cancelled'' \<Longrightarrow> hasError (handleProgress tm d v)"
  by (auto simp add: handleProgress_def addSystemMessage_def Let_def)

text \<open>
  Claim C2, as the code has it. The handlers keep three independent flags and none of them
  ever clears \<open>hasError\<close>. So once a progress event of subtype error or cancelled has been
  processed, whatever events follow, \<open>hasError\<close> stays set and the status shown to the user
  (status class and badge, which test \<open>hasError\<close> first) stays the error status. A
  complete event is processed all the same, whatever came before: it sets \<open>isComplete\<close>.
\<close>

theorem C2_error_status_sticky:
  assumes "p_type d = Some ''error'' \<or> p_type d = Some ''cancelled''"
  shows "hasError (process (handleProgress tm d v) evs)
       \<and> statusClass (process (handleProgress tm d v) evs) = ''error''
       \<and> statusBadgeText (process (handleProgress tm d v) evs) = ''AGENT ERROR''
       \<and> (p_type d' = Some ''complete'' \<longrightarrow> isComplete (handleProgress tm' d' v'))"
proof -
  have "hasError (process (handleProgress tm d v) evs)"
    using assms by (intro hasError_process hasError_after_error)
  moreover have "isComplete (handleProgress tm' d' v')" if "p_type d' = Some ''complete''"
    using that by (simp add: handleProgress_def addSystemMessage_def)
  ultimately show ?thesis
    by (simp add: statusClass_def statusBadgeText_def)
qed

theorem C2_error_status_sticky_witness:
  "(p_type (ev_error ''boom'') = Some ''error'' \<or> p_type (ev_error ''boom'') = Some ''cancelled'')
   \<and> hasError (process (handleProgress ''10:00:00'' (ev_error ''boom'') (fresh_view ''t''))
        [(''10:00:01'', Progress ev_complete)])
   \<and> statusClass (process (handleProgress ''10:00:00'' (ev_error ''boom'') (fresh_view ''t''))
        [(''10:00:01'', Progress ev_complete)]) = ''error''
   \<and> errorMessage (handleProgress ''10:00:00'' (ev_error ''boom'') (fresh_view ''t'')) = ''boom''
   \<and> p_type ev_complete = Some ''complete''
   \<and> isComplete (handleProgress ''10:00:01'' ev_complete
        (handleProgress ''10:00:00'' (ev_error ''boom'') (fresh_view ''t'')))"
proof -
  have h: "p_type (ev_error ''boom'') = Some ''error'' \<or> p_type (ev_error ''boom'') = Some ''cancelled''"
    by (simp add: ev_error_def no_payload_def)
  have c: "p_type ev_complete = Some ''complete''"
    by (simp add: ev_complete_def no_payload_def)
  have e: "errorMessage (handleProgress ''10:00:00'' (ev_error ''boom'') (fresh_view ''t'')) = ''boom''"
    by (simp add: ev_error_def no_payload_def handleProgress_def js_or_def addSystemMessage_def Let_def)
  show ?thesis
    using h c e C2_error_status_sticky [OF h, where tm = "''10:00:00''"
      and v = "fresh_view ''t''" and evs = "[(''10:00:01'', Progress ev_complete)]"
      and d' = ev_complete and tm' = "''10:00:01''"
      and v' = "handleProgress ''10:00:00'' (ev_error ''boom'') (fresh_view ''t'')"]
    by blast
qed

text \<open>
  Claim C2 as the specification words it fails: after an error event, a later complete
  event is neither ignored nor flagged. It sets \<open>isComplete\<close>, which was clear, turns the
  computed task status from Ready into Completed, appends the completion message and
  starts the saving of the history record.
\<close>

theorem C2_complete_after_error_counterexample:
  "\<not> isComplete (handleProgress ''10:00:00'' (ev_error ''boom'') (fresh_view ''t''))
   \<and> taskStatus (handleProgress ''10:00:00'' (ev_error ''boom'') (fresh_view ''t'')) = ''Ready''
   \<and> isComplete (handleProgress ''10:00:01'' ev_complete
        (handleProgress ''10:00:00'' (ev_error ''boom'') (fresh_view ''t'')))
   \<and> taskStatus (handleProgress ''10:00:01'' ev_complete
        (handleProgress ''10:00:00'' (ev_error ''boom'') (fresh_view ''t''))) = ''Completed''
   \<and> length (messages (handleProgress ''10:00:01'' ev_complete
        (handleProgress ''10:00:00'' (ev_error ''boom'') (fresh_view ''t'')))) = 2
   \<and> saveHistoryCalls (handleProgress ''10:00:01'' ev_complete
        (handleProgress ''10:00:00'' (ev_error ''boom'') (fresh_view ''t''))) = 1"
  by (simp add: handleProgress_def ev_error_def ev_complete_def no_payload_def fresh_view_def
      taskStatus_def addSystemMessage_def js_or_def Let_def)

section \<open>Listener registry: proofs\<close>


lemma count_list_remove1:
  "count_list (remove1 x xs) y = (if x = y then count_list xs y - 1 else count_list xs y)"
  by (induction xs) auto

lemma on_socket: "socket g \<noteq> None \<Longrightarrow> socket (fst (on e cb (g, c))) \<noteq> None"
  by (auto simp: on_def Let_def split: option.splits)

lemma off_socket: "socket g \<noteq> None \<Longrightarrow> socket (fst (off e cbo (g, c))) \<noteq> None"
  by (auto simp: off_def Let_def split: option.splits)

lemma on_refcount:
  "socket g \<noteq> None \<Longrightarrow>
   refcount (fst (on e cb (g, c))) e' cb' =
     (if e' = e \<and> cb' = cb then (if bound g e cb then refcount g e cb + 1 else 1)
      else refcount g e' cb')"
  by (auto simp: on_def Let_def refcount_def bound_def split: option.splits)

lemma on_bound:
  "socket g \<noteq> None \<Longrightarrow>
   bound (fst (on e cb (g, c))) e' cb' = (bound g e' cb' \<or> (e' = e \<and> cb' = cb))"
  by (auto simp: on_def Let_def bound_def split: option.splits)

lemma on_subscriptions:
  "socket g \<noteq> None \<Longrightarrow>
   subscriptions (fst (on e cb (g, c))) e' cb' =
     (if e' = e \<and> cb' = cb \<and> \<not> bound g e cb then subscriptions g e cb + 1
      else subscriptions g e' cb')"
  by (auto simp: on_def Let_def subscriptions_def bound_def sock_on_def split: option.splits)

lemma off_refcount:
  "socket g \<noteq> None \<Longrightarrow>
   refcount (fst (off e (Some cb) (g, c))) e' cb' =
     (if e' = e \<and> cb' = cb then (if 1 < refcount g e cb then refcount g e cb - 1 else 0)
      else refcount g e' cb')"
  by (auto simp: off_def Let_def refcount_def split: option.splits)

lemma off_bound:
  "socket g \<noteq> None \<Longrightarrow>
   bound (fst (off e (Some cb) (g, c))) e' cb' =
     (if e' = e \<and> cb' = cb then (bound g e cb \<and> 1 < refcount g e cb) else bound g e' cb')"
  by (auto simp: off_def Let_def refcount_def bound_def split: option.splits)

lemma off_subscriptions:
  "socket g \<noteq> None \<Longrightarrow>
   subscriptions (fst (off e (Some cb) (g, c))) e' cb' =
     (if e' = e \<and> cb' = cb \<and> bound g e cb \<and> \<not> 1 < refcount g e cb then subscriptions g e cb - 1
      else subscriptions g e' cb')"
  by (auto simp: off_def Let_def subscriptions_def refcount_def bound_def sock_off_def
      count_list_remove1 split: option.splits)

lemma off_unbound_shared:
  "\<not> bound g e cb \<Longrightarrow> fst (off e (Some cb) (g, c)) = g"
  by (auto simp: off_def Let_def bound_def split: option.splits)


lemma off_owner_idem:
  "snd (off e (Some cb) (off e (Some cb) st)) = snd (off e (Some cb) st)"
proof (cases st)
  case (Pair g c)
  have idem: "cl_update e (removeAll cb) (cl_update e (removeAll cb) cl) = cl_update e (removeAll cb) cl"
    for cl :: "(string \<times> 'a list) list"
    by (induction cl) (auto simp: cl_update_def)
  show ?thesis
  proof (cases "socket g")
    case None
    then show ?thesis by (simp add: Pair off_def)
  next
    case (Some s)
    then have "socket (fst (off e (Some cb) (g, c))) \<noteq> None"
      by (intro off_socket) simp
    then obtain s' where s': "socket (fst (off e (Some cb) (g, c))) = Some s'"
      by auto
    have c1: "snd (off e (Some cb) (g, c)) = c\<lparr> componentListeners := cl_update e (removeAll cb) (componentListeners c) \<rparr>"
      using Some by (simp add: off_def Let_def)
    have "snd (off e (Some cb) (g', c')) = c'\<lparr> componentListeners := cl_update e (removeAll cb) (componentListeners c') \<rparr>"
      if "socket g' = Some s'" for g' :: "'a shared" and c'
      using that by (simp add: off_def Let_def)
    from this [of "fst (off e (Some cb) (g, c))" "snd (off e (Some cb) (g, c))"] s'
    have "snd (off e (Some cb) (off e (Some cb) (g, c)))
        = (snd (off e (Some cb) (g, c)))\<lparr> componentListeners :=
             cl_update e (removeAll cb) (componentListeners (snd (off e (Some cb) (g, c)))) \<rparr>"
      by simp
    then show ?thesis
      by (simp add: Pair c1 idem)
  qed
qed

text \<open>The state after \<open>k\<close> registrations of a pair that was not bound.\<close>

lemma ons_state:
  assumes "socket g \<noteq> None" and "\<not> bound g e cb" and "subscriptions g e cb = 0" and "1 \<le> k"
  shows "socket (fst ((on e cb ^^ k) (g, c))) \<noteq> None
       \<and> bound (fst ((on e cb ^^ k) (g, c))) e cb
       \<and> refcount (fst ((on e cb ^^ k) (g, c))) e cb = int k
       \<and> subscriptions (fst ((on e cb ^^ k) (g, c))) e cb = 1"
  using assms(4)
proof (induction k rule: nat_induct_at_least)
  case base
  show ?case
    using assms(1-3) by (simp add: on_socket on_bound on_refcount on_subscriptions)
next
  case (Suc n)
  obtain g' c' where st: "(on e cb ^^ n) (g, c) = (g', c')"
    by (cases "(on e cb ^^ n) (g, c)")
  with Suc.IH have "socket g' \<noteq> None" "bound g' e cb" "refcount g' e cb = int n"
      "subscriptions g' e cb = 1"
    by simp_all
  then show ?case
    by (simp add: st on_socket on_bound on_refcount on_subscriptions)
qed

lemma ons_others:
  assumes "socket g \<noteq> None" and "e' \<noteq> e \<or> cb' \<noteq> cb"
  shows "socket (fst ((on e cb ^^ k) (g, c))) \<noteq> None
       \<and> refcount (fst ((on e cb ^^ k) (g, c))) e' cb' = refcount g e' cb'
       \<and> subscriptions (fst ((on e cb ^^ k) (g, c))) e' cb' = subscriptions g e' cb'"
proof (induction k)
  case 0
  show ?case using assms by simp
next
  case (Suc n)
  obtain g' c' where st: "(on e cb ^^ n) (g, c) = (g', c')"
    by (cases "(on e cb ^^ n) (g, c)")
  with Suc.IH have "socket g' \<noteq> None" "refcount g' e' cb' = refcount g e' cb'"
      "subscriptions g' e' cb' = subscriptions g e' cb'"
    by simp_all
  then show ?case
    using assms(2) by (auto simp add: st on_socket on_refcount on_subscriptions)
qed

text \<open>The state after \<open>j\<close> releases of a pair bound with count \<open>n\<close> and subscribed once.\<close>

lemma offs_state:
  assumes "socket (fst st) \<noteq> None" and "bound (fst st) e cb" and "refcount (fst st) e cb = int n"
    and "subscriptions (fst st) e cb = 1" and "1 \<le> n" and "j \<le> n"
  shows "socket (fst ((off e (Some cb) ^^ j) st)) \<noteq> None
       \<and> bound (fst ((off e (Some cb) ^^ j) st)) e cb = (j < n)
       \<and> refcount (fst ((off e (Some cb) ^^ j) st)) e cb = int (n - j)
       \<and> subscriptions (fst ((off e (Some cb) ^^ j) st)) e cb = (if j < n then 1 else 0)"
  using assms(6)
proof (induction j)
  case 0
  from assms(1-5) show ?case
    by simp
next
  case (Suc i)
  obtain g' c' where st: "(off e (Some cb) ^^ i) st = (g', c')"
    by (cases "(off e (Some cb) ^^ i) st")
  from Suc have "i < n" by simp
  with Suc.IH st have "socket g' \<noteq> None" "bound g' e cb" "refcount g' e cb = int (n - i)"
      "subscriptions g' e cb = 1"
    by simp_all
  then show ?case
    using \<open>i < n\<close> by (auto simp add: st off_socket off_bound off_refcount off_subscriptions)
qed

lemma offs_others:
  assumes "socket (fst st) \<noteq> None" and "e' \<noteq> e \<or> cb' \<noteq> cb"
  shows "socket (fst ((off e (Some cb) ^^ j) st)) \<noteq> None
       \<and> refcount (fst ((off e (Some cb) ^^ j) st)) e' cb' = refcount (fst st) e' cb'
       \<and> subscriptions (fst ((off e (Some cb) ^^ j) st)) e' cb' = subscriptions (fst st) e' cb'"
proof (induction j)
  case 0
  show ?case using assms by simp
next
  case (Suc i)
  obtain g' c' where st: "(off e (Some cb) ^^ i) st = (g', c')"
    by (cases "(off e (Some cb) ^^ i) st")
  with Suc.IH have "socket g' \<noteq> None" "refcount g' e' cb' = refcount (fst st) e' cb'"
      "subscriptions g' e' cb' = subscriptions (fst st) e' cb'"
    by simp_all
  then show ?case
    using assms(2) by (auto simp add: st off_socket off_refcount off_subscriptions)
qed


lemma registry_ok_ons:
  assumes "socket g \<noteq> None" and "\<not> bound g e cb" and "subscriptions g e cb = 0"
    and "registry_ok g"
  shows "registry_ok (fst ((on e cb ^^ k) (g, c)))"
  unfolding registry_ok_def
proof (intro allI)
  fix e' cb'
  show "0 \<le> refcount (fst ((on e cb ^^ k) (g, c))) e' cb'
      \<and> subscriptions (fst ((on e cb ^^ k) (g, c))) e' cb' \<le> 1"
  proof (cases "e' = e \<and> cb' = cb")
    case True
    show ?thesis
    proof (cases "k = 0")
      case True
      then show ?thesis using assms(4) by (simp add: registry_ok_def)
    next
      case False
      then have "1 \<le> k" by simp
      from ons_state [OF assms(1-3) this, of c] True show ?thesis by simp
    qed
  next
    case False
    then have "e' \<noteq> e \<or> cb' \<noteq> cb" by simp
    from ons_others [OF assms(1) this, of k c] assms(4) show ?thesis
      by (simp add: registry_ok_def)
  qed
qed

lemma registry_ok_offs:
  assumes "socket (fst st) \<noteq> None" and "bound (fst st) e cb" and "refcount (fst st) e cb = int n"
    and "subscriptions (fst st) e cb = 1" and "1 \<le> n" and "j \<le> n" and "registry_ok (fst st)"
  shows "registry_ok (fst ((off e (Some cb) ^^ j) st))"
  unfolding registry_ok_def
proof (intro allI)
  fix e' cb'
  show "0 \<le> refcount (fst ((off e (Some cb) ^^ j) st)) e' cb'
      \<and> subscriptions (fst ((off e (Some cb) ^^ j) st)) e' cb' \<le> 1"
  proof (cases "e' = e \<and> cb' = cb")
    case True
    from offs_state [OF assms(1-6)] True show ?thesis by simp
  next
    case False
    then have "e' \<noteq> e \<or> cb' \<noteq> cb" by simp
    from offs_others [OF assms(1) this, of j] assms(7) show ?thesis
      by (simp add: registry_ok_def)
  qed
qed

lemma off_again_noop:
  assumes "\<not> bound (fst (off e (Some cb) st)) e cb"
  shows "off e (Some cb) (off e (Some cb) st) = off e (Some cb) st"
proof (rule prod_eqI)
  obtain g' c' where st': "off e (Some cb) st = (g', c')"
    by (cases "off e (Some cb) st")
  with assms have "\<not> bound g' e cb" by simp
  then have "fst (off e (Some cb) (g', c')) = g'"
    by (rule off_unbound_shared)
  then show "fst (off e (Some cb) (off e (Some cb) st)) = fst (off e (Some cb) st)"
    by (simp add: st')
  show "snd (off e (Some cb) (off e (Some cb) st)) = snd (off e (Some cb) st)"
    by (rule off_owner_idem)
qed

text \<open>
  Claim C3. Take a state with the socket initialized in which the pair \<open>(e, cb)\<close> is not
  registered yet, and in which no count is negative and no pair is subscribed twice. After
  \<open>N \<ge> 1\<close> calls of \<open>on(e, cb)\<close> the transport holds exactly one subscription of the pair
  and its reference count is \<open>N\<close>. After \<open>N\<close> calls of \<open>off(e, cb)\<close> the count is back to
  0 (the entry is gone) and the subscription is removed. One more \<open>off(e, cb)\<close> changes
  nothing, neither in the shared state nor in the owner's. After every call of the whole
  run no count is negative and no pair is subscribed more than once.
\<close>

theorem C3_on_off_reference_count:
  assumes "socket g \<noteq> None" and "\<not> bound g e cb" and "subscriptions g e cb = 0"
    and "registry_ok g" and "1 \<le> N"
  shows "subscriptions (fst ((on e cb ^^ N) (g, c))) e cb = 1
       \<and> refcount (fst ((on e cb ^^ N) (g, c))) e cb = int N
       \<and> refcount (fst ((off e (Some cb) ^^ N) ((on e cb ^^ N) (g, c)))) e cb = 0
       \<and> \<not> bound (fst ((off e (Some cb) ^^ N) ((on e cb ^^ N) (g, c)))) e cb
       \<and> subscriptions (fst ((off e (Some cb) ^^ N) ((on e cb ^^ N) (g, c)))) e cb = 0
       \<and> off e (Some cb) ((off e (Some cb) ^^ N) ((on e cb ^^ N) (g, c)))
           = (off e (Some cb) ^^ N) ((on e cb ^^ N) (g, c))
       \<and> (\<forall>k\<le>N. registry_ok (fst ((on e cb ^^ k) (g, c))))
       \<and> (\<forall>k\<le>N + 1. registry_ok (fst ((off e (Some cb) ^^ k) ((on e cb ^^ N) (g, c)))))"
proof -
  let ?s1 = "(on e cb ^^ N) (g, c)"
  let ?s2 = "(off e (Some cb) ^^ N) ?s1"
  note s1 = ons_state [OF assms(1-3) assms(5), of c]
  then have a: "socket (fst ?s1) \<noteq> None" and b: "bound (fst ?s1) e cb"
    and r: "refcount (fst ?s1) e cb = int N" and p: "subscriptions (fst ?s1) e cb = 1"
    by simp_all
  have ok1: "registry_ok (fst ?s1)"
    by (rule registry_ok_ons [OF assms(1-4)])
  have s2: "refcount (fst ?s2) e cb = 0 \<and> \<not> bound (fst ?s2) e cb \<and> subscriptions (fst ?s2) e cb = 0"
    using offs_state [OF a b r p assms(5), of N] by simp
  obtain M where M: "N = Suc M"
    using assms(5) by (cases N) simp_all
  have "?s2 = off e (Some cb) ((off e (Some cb) ^^ M) ?s1)"
    by (simp add: M)
  with s2 have noop: "off e (Some cb) ?s2 = ?s2"
    using off_again_noop [of e cb "(off e (Some cb) ^^ M) ?s1"] by simp
  have ons_ok: "\<forall>k\<le>N. registry_ok (fst ((on e cb ^^ k) (g, c)))"
    by (simp add: registry_ok_ons [OF assms(1-4)])
  have offs_ok: "registry_ok (fst ((off e (Some cb) ^^ k) ?s1))" if "k \<le> N + 1" for k
  proof (cases "k \<le> N")
    case True
    then show ?thesis
      by (rule registry_ok_offs [OF a b r p assms(5) _ ok1])
  next
    case False
    with that have "k = Suc N" by simp
    then have "(off e (Some cb) ^^ k) ?s1 = ?s2"
      using noop by simp
    then show ?thesis
      using registry_ok_offs [OF a b r p assms(5) _ ok1, of N] by simp
  qed
  show ?thesis
    using s1 s2 noop ons_ok offs_ok by blast
qed

theorem C3_on_off_reference_count_witness:
  "socket g0 \<noteq> None \<and> \<not> bound g0 ''agent:progress'' 7
   \<and> subscriptions g0 ''agent:progress'' 7 = 0 \<and> registry_ok g0 \<and> (1::nat) \<le> 3
   \<and> subscriptions (fst ((on ''agent:progress'' 7 ^^ 3) (g0, c0))) ''agent:progress'' 7 = 1
   \<and> refcount (fst ((on ''agent:progress'' 7 ^^ 3) (g0, c0))) ''agent:progress'' 7 = 3
   \<and> subscriptions (fst ((off ''agent:progress'' (Some 7) ^^ 3)
        ((on ''agent:progress'' 7 ^^ 3) (g0, c0)))) ''agent:progress'' 7 = 0"
proof -
  have h1: "socket g0 \<noteq> None"
    by (simp add: g0_def)
  have h2: "\<not> bound g0 ''agent:progress'' 7"
    by (simp add: g0_def bound_def)
  have h3: "subscriptions g0 ''agent:progress'' 7 = 0"
    by (simp add: g0_def subscriptions_def)
  have h4: "registry_ok g0"
    by (simp add: g0_def registry_ok_def refcount_def subscriptions_def)
  have h5: "(1::nat) \<le> 3"
    by simp
  show ?thesis
    using h1 h2 h3 h4 C3_on_off_reference_count [OF h1 h2 h3 h4 h5, of c0]
    by simp
qed

text \<open>
  Claim C10. While no socket has been created, \<open>on(event, callback)\<close> returns at once: the
  shared state (registry included) and the owner's tracking map are what they were, and
  there is no subscription of the pair anywhere. The function has no way to signal an
  error to its caller, so the registration is dropped silently; nothing keeps it for later:
  a \<open>connect()\<close> that follows starts from the state it would have found without the call.
\<close>

theorem C10_on_without_socket:
  assumes "socket g = None"
  shows "on e cb (g, c) = (g, c)
       \<and> subscriptions (fst (on e cb (g, c))) e cb = 0
       \<and> connect r (fst (on e cb (g, c))) = connect r g"
  using assms by (simp add: on_def subscriptions_def)

theorem C10_on_without_socket_witness:
  "socket (g0\<lparr> socket := None \<rparr>) = None
   \<and> on ''agent:progress'' 7 (g0\<lparr> socket := None \<rparr>, c0) = (g0\<lparr> socket := None \<rparr>, c0)"
  using C10_on_without_socket [of "g0\<lparr> socket := None \<rparr>" "''agent:progress''" 7 c0]
  by simp


lemma set_cl_pairs: "set (cl_pairs cl) = {(e, cb). \<exists>cs. (e, cs) \<in> set cl \<and> cb \<in> set cs}"
  by (auto simp: cl_pairs_def)

lemma distinct_cl_pairs: "cl_wf cl \<Longrightarrow> distinct (cl_pairs cl)"
proof (induction cl)
  case Nil
  show ?case by (simp add: cl_pairs_def)
next
  case (Cons en cl)
  obtain e cs where en: "en = (e, cs)" by (cases en)
  from Cons.prems have wf: "cl_wf cl" and ne: "e \<notin> fst ` set cl" and dc: "distinct cs"
    by (auto simp: cl_wf_def en)
  have "cl_pairs (en # cl) = map (Pair e) cs @ cl_pairs cl"
    by (simp add: cl_pairs_def en)
  moreover have "distinct (map (Pair e) cs)"
    using dc by (simp add: distinct_map inj_on_def)
  moreover have "set (map (Pair e) cs) \<inter> set (cl_pairs cl) = {}"
    using ne by (force simp: set_cl_pairs)
  ultimately show ?case
    using Cons.IH [OF wf] by simp
qed

lemma cl_update_keys: "map fst (cl_update e f cl) = map fst cl"
  by (induction cl) (auto simp: cl_update_def)

lemma cl_pairs_Cons: "cl_pairs ((e, cs) # cl) = map (Pair e) cs @ cl_pairs cl"
  by (simp add: cl_pairs_def)

lemma cl_update_Cons:
  "cl_update e f ((e', cs) # cl) = (if e' = e then (e', f cs) else (e', cs)) # cl_update e f cl"
  by (simp add: cl_update_def)

lemma cl_pairs_update_add:
  "set (cl_pairs (cl_update e (set_add cb) cl))
   = (if e \<in> fst ` set cl then insert (e, cb) (set (cl_pairs cl)) else set (cl_pairs cl))"
proof (induction cl)
  case Nil
  show ?case by (simp add: cl_update_def)
next
  case (Cons en cl)
  obtain e' cs where en: "en = (e', cs)" by (cases en)
  have "set (set_add cb cs) = insert cb (set cs)"
    by (auto simp: set_add_def)
  then show ?case
    unfolding en cl_update_Cons using Cons.IH
    by (auto simp add: cl_pairs_Cons)
qed

lemma on_owner:
  assumes "socket g \<noteq> None" and "cl_wf (componentListeners c)"
  shows "cl_wf (componentListeners (snd (on e cb (g, c))))
       \<and> set (cl_pairs (componentListeners (snd (on e cb (g, c)))))
           = insert (e, cb) (set (cl_pairs (componentListeners c)))"
proof -
  let ?cl = "componentListeners c"
  let ?cl1 = "if cl_has ?cl e then ?cl else ?cl @ [(e, [])]"
  have c': "componentListeners (snd (on e cb (g, c))) = cl_update e (set_add cb) ?cl1"
    using assms(1) by (auto simp: on_def Let_def split: option.splits)
  have wf1: "cl_wf ?cl1"
    using assms(2) by (auto simp: cl_wf_def cl_has_def)
  have has1: "e \<in> fst ` set ?cl1"
    by (auto simp: cl_has_def)
  have p1: "set (cl_pairs ?cl1) = set (cl_pairs ?cl)"
    by (auto simp: set_cl_pairs)
  have "cl_wf (cl_update e (set_add cb) cl)" if "cl_wf cl" for cl :: "(string \<times> 'a list) list"
    using that unfolding cl_wf_def cl_update_keys
    by (auto simp: cl_update_def set_add_def)
  from this [OF wf1] have wf2: "cl_wf (cl_update e (set_add cb) ?cl1)" .
  from cl_pairs_update_add [of e cb ?cl1] has1 p1 wf2 c' show ?thesis
    by simp
qed


lemma register_snoc: "register (ops @ [(e, cb)]) st = on e cb (register ops st)"
  by (simp add: register_def)

lemma count_list_snoc: "count_list (xs @ [x]) y = count_list xs y + (if x = y then 1 else 0)"
  by (induction xs) auto

lemma register_state:
  assumes "socket g \<noteq> None" and "cl_wf (componentListeners c)"
  shows "socket (fst (register ops (g, c))) \<noteq> None
       \<and> cl_wf (componentListeners (snd (register ops (g, c))))
       \<and> set (cl_pairs (componentListeners (snd (register ops (g, c)))))
           = set ops \<union> set (cl_pairs (componentListeners c))
       \<and> (\<forall>e cb. bound (fst (register ops (g, c))) e cb = (bound g e cb \<or> (e, cb) \<in> set ops))
       \<and> (\<forall>e cb. refcount (fst (register ops (g, c))) e cb
            = (if bound g e cb then refcount g e cb else 0) + int (count_list ops (e, cb)))"
proof (induction ops rule: rev_induct)
  case Nil
  show ?case
    using assms by (auto simp: register_def refcount_def bound_def split: option.splits)
next
  case (snoc x ops)
  obtain e cb where x: "x = (e, cb)" by (cases x)
  obtain g' c' where st: "register ops (g, c) = (g', c')"
    by (cases "register ops (g, c)")
  from snoc.IH st have s: "socket g' \<noteq> None" and wf: "cl_wf (componentListeners c')"
    and ps: "set (cl_pairs (componentListeners c')) = set ops \<union> set (cl_pairs (componentListeners c))"
    and bd: "\<And>e cb. bound g' e cb = (bound g e cb \<or> (e, cb) \<in> set ops)"
    and rc: "\<And>e cb. refcount g' e cb = (if bound g e cb then refcount g e cb else 0) + int (count_list ops (e, cb))"
    by simp_all
  have nb: "refcount g' e cb = 0" if "\<not> bound g' e cb"
    using that by (auto simp: refcount_def bound_def split: option.splits)
  show ?case
    unfolding x register_snoc st
    using on_owner [OF s wf, of e cb] ps nb
    by (auto simp add: on_socket [OF s] on_bound [OF s] on_refcount [OF s] bd rc count_list_snoc)
qed


lemma refcount_unbound: "\<not> bound g e cb \<Longrightarrow> refcount g e cb = 0"
  by (auto simp: refcount_def bound_def split: option.splits)

lemma release_all:
  assumes "distinct ps"
  shows "socket (fst st) \<noteq> None \<Longrightarrow> \<forall>p \<in> set ps. 1 \<le> refcount (fst st) (fst p) (snd p) \<Longrightarrow>
     socket (fst (foldl (\<lambda>st' (e, cb). off e (Some cb) st') st ps)) \<noteq> None
     \<and> (\<forall>e cb. refcount (fst (foldl (\<lambda>st' (e, cb). off e (Some cb) st') st ps)) e cb
           = refcount (fst st) e cb - (if (e, cb) \<in> set ps then 1 else 0))"
  using assms
proof (induction ps arbitrary: st)
  case Nil
  then show ?case by simp
next
  case (Cons p ps)
  obtain e1 cb1 where p: "p = (e1, cb1)" by (cases p)
  obtain g c where st: "st = (g, c)" by (cases st)
  let ?st' = "off e1 (Some cb1) (g, c)"
  from Cons.prems st have s: "socket g \<noteq> None" by simp
  from Cons.prems p st have r1: "1 \<le> refcount g e1 cb1" by simp
  have s': "socket (fst ?st') \<noteq> None"
    by (rule off_socket [OF s])
  have rc': "refcount (fst ?st') e cb
      = (if e = e1 \<and> cb = cb1 then refcount g e1 cb1 - 1 else refcount g e cb)" for e cb
    using r1 by (simp add: off_refcount [OF s])
  from Cons.prems p have notin: "(e1, cb1) \<notin> set ps" and d: "distinct ps"
    by simp_all
  have pre: "\<forall>q \<in> set ps. 1 \<le> refcount (fst ?st') (fst q) (snd q)"
  proof
    fix q assume q: "q \<in> set ps"
    with notin have "q \<noteq> (e1, cb1)" by auto
    then have "\<not> (fst q = e1 \<and> snd q = cb1)" by (cases q) auto
    moreover from Cons.prems q st have "1 \<le> refcount g (fst q) (snd q)" by simp
    ultimately show "1 \<le> refcount (fst ?st') (fst q) (snd q)"
      unfolding rc' by auto
  qed
  note IH = Cons.IH [OF s' pre d]
  have step: "foldl (\<lambda>st' (e, cb). off e (Some cb) st') st (p # ps)
      = foldl (\<lambda>st' (e, cb). off e (Some cb) st') ?st' ps"
    by (simp add: p st)
  show ?case
    unfolding step using IH notin by (auto simp add: rc' st p)
qed

text \<open>
  Claim C8. An owner with an empty tracking map makes the calls \<open>on(e, cb)\<close> listed in
  \<open>ops\<close> (any pairs, any repetitions) on a state with the socket initialized and no negative
  count. Each call adds one to the count of its pair, so a pair registered \<open>K\<close> times has
  gained \<open>K\<close>. The owner's cleanup then takes exactly one off the count of every pair that
  occurs in \<open>ops\<close>, however often it occurs, leaves every other count alone, and empties
  the tracking map.
\<close>

theorem C8_cleanup_releases_once:
  assumes "socket g \<noteq> None" and "\<forall>e cb. 0 \<le> refcount g e cb" and "componentListeners c = []"
  shows "(\<forall>e cb. refcount (fst (register ops (g, c))) e cb
            = refcount g e cb + int (count_list ops (e, cb)))
       \<and> (\<forall>e cb. refcount (fst (cleanupComponentListeners (register ops (g, c)))) e cb
            = refcount (fst (register ops (g, c))) e cb - (if (e, cb) \<in> set ops then 1 else 0))
       \<and> componentListeners (snd (cleanupComponentListeners (register ops (g, c)))) = []"
proof -
  let ?st = "register ops (g, c)"
  let ?ps = "cl_pairs (componentListeners (snd ?st))"
  have wf0: "cl_wf (componentListeners c)"
    by (simp add: assms(3) cl_wf_def)
  note R = register_state [OF assms(1) wf0, of ops]
  then have s: "socket (fst ?st) \<noteq> None" and wf: "cl_wf (componentListeners (snd ?st))"
    and ps: "set ?ps = set ops"
    by (simp_all add: assms(3) cl_pairs_def)
  have rc: "refcount (fst ?st) e cb = refcount g e cb + int (count_list ops (e, cb))" for e cb
    using R refcount_unbound [of g e cb] by simp
  have d: "distinct ?ps"
    by (rule distinct_cl_pairs [OF wf])
  have pre: "\<forall>p \<in> set ?ps. 1 \<le> refcount (fst ?st) (fst p) (snd p)"
  proof
    fix p assume "p \<in> set ?ps"
    with ps have "p \<in> set ops" by simp
    then have "count_list ops (fst p, snd p) \<noteq> 0"
      by (simp add: count_list_0_iff)
    then have "0 < count_list ops (fst p, snd p)"
      by simp
    moreover have "0 \<le> refcount g (fst p) (snd p)"
      using assms(2) by simp
    ultimately show "1 \<le> refcount (fst ?st) (fst p) (snd p)"
      unfolding rc by linarith
  qed
  note F = release_all [OF d s pre]
  obtain g' c' where f: "foldl (\<lambda>st' (e, cb). off e (Some cb) st') ?st ?ps = (g', c')"
    by (cases "foldl (\<lambda>st' (e, cb). off e (Some cb) st') ?st ?ps")
  have cu: "cleanupComponentListeners ?st = (g', c'\<lparr> componentListeners := [] \<rparr>)"
    by (simp add: cleanupComponentListeners_def f)
  from F f ps have "\<forall>e cb. refcount g' e cb
      = refcount (fst ?st) e cb - (if (e, cb) \<in> set ops then 1 else 0)"
    by simp
  then show ?thesis
    using rc by (simp add: cu)
qed

theorem C8_cleanup_releases_once_witness:
  "socket g0 \<noteq> None \<and> (\<forall>e cb. 0 \<le> refcount g0 e cb) \<and> componentListeners c0 = []
   \<and> refcount (fst (register [(''agent:thought'', 7), (''agent:thought'', 7), (''agent:thought'', 7)]
        (g0, c0))) ''agent:thought'' 7 = 3
   \<and> refcount (fst (cleanupComponentListeners
        (register [(''agent:thought'', 7), (''agent:thought'', 7), (''agent:thought'', 7)]
        (g0, c0)))) ''agent:thought'' 7 = 2"
proof -
  have h1: "socket g0 \<noteq> None"
    by (simp add: g0_def)
  have h2: "\<forall>e cb. 0 \<le> refcount g0 e cb"
    by (simp add: g0_def refcount_def)
  have h3: "componentListeners c0 = []"
    by (simp add: c0_def)
  have z: "refcount g0 ''agent:thought'' 7 = 0"
    by (simp add: g0_def refcount_def)
  show ?thesis
    using h1 h2 h3 z
      C8_cleanup_releases_once [OF h1 h2 h3,
        of "[(''agent:thought'', 7), (''agent:thought'', 7), (''agent:thought'', 7)]"]
    by simp
qed

section \<open>Connection lifecycle: proofs\<close>


lemma off_keeps:
  "connectionRefCount (fst (off e cbo st)) = connectionRefCount (fst st)
   \<and> componentMounted (snd (off e cbo st)) = componentMounted (snd st)"
  by (cases st) (auto simp: off_def Let_def split: option.splits)

lemma release_keeps:
  "connectionRefCount (fst (foldl (\<lambda>st' (e, cb). off e (Some cb) st') st ps)) = connectionRefCount (fst st)
   \<and> componentMounted (snd (foldl (\<lambda>st' (e, cb). off e (Some cb) st') st ps)) = componentMounted (snd st)"
proof (induction ps arbitrary: st)
  case Nil
  show ?case by simp
next
  case (Cons p ps)
  obtain e cb where p: "p = (e, cb)" by (cases p)
  show ?case
    using Cons.IH [of "off e (Some cb) st"] off_keeps [of e "Some cb" st]
    by (simp add: p)
qed

lemma cleanup_keeps:
  "connectionRefCount (fst (cleanupComponentListeners st)) = connectionRefCount (fst st)
   \<and> componentMounted (snd (cleanupComponentListeners st)) = componentMounted (snd st)"
proof -
  obtain g c where f: "foldl (\<lambda>st' (e, cb). off e (Some cb) st') st (cl_pairs (componentListeners (snd st))) = (g, c)"
    by (cases "foldl (\<lambda>st' (e, cb). off e (Some cb) st') st (cl_pairs (componentListeners (snd st)))")
  with release_keeps [of st "cl_pairs (componentListeners (snd st))"] show ?thesis
    by (simp add: cleanupComponentListeners_def)
qed

lemma teardown_keeps:
  "connectionRefCount (shared (teardown w)) = connectionRefCount (shared w)
   \<and> owners (teardown w) = owners w"
  by (simp add: teardown_def disconnect_def split: option.splits)

lemma teardown_fold_keeps:
  "connectionRefCount (shared (foldl (\<lambda>w' d. teardown w') w ds)) = connectionRefCount (shared w)
   \<and> owners (foldl (\<lambda>w' d. teardown w') w ds) = owners w"
  by (induction ds arbitrary: w) (simp_all add: teardown_keeps)

lemma fire_due_keeps:
  "connectionRefCount (shared (fire_due t w)) = connectionRefCount (shared w)
   \<and> owners (fire_due t w) = owners w"
  by (simp add: fire_due_def teardown_fold_keeps)

lemma covers_fire_due: "count_covers_mounted w \<Longrightarrow> count_covers_mounted (fire_due t w)"
  by (simp add: count_covers_mounted_def fire_due_keeps)

lemma covers_onMounted: "count_covers_mounted w \<Longrightarrow> count_covers_mounted (onMounted ow w)"
proof -
  assume a: "count_covers_mounted w"
  let ?M = "{x. componentMounted (owners w x)}"
  have m: "{x. componentMounted (owners (onMounted ow w) x)} = insert ow ?M"
    by (auto simp: onMounted_def)
  from a have f: "finite ?M" and c: "int (card ?M) \<le> connectionRefCount (shared w)"
    by (simp_all add: count_covers_mounted_def)
  have "card (insert ow ?M) \<le> Suc (card ?M)"
    by (rule card_insert_le_m1) simp_all
  with c have "int (card (insert ow ?M)) \<le> connectionRefCount (shared w) + 1"
    by linarith
  with f show ?thesis
    unfolding count_covers_mounted_def m by (simp add: onMounted_def)
qed

lemma covers_onUnmounted: "count_covers_mounted w \<Longrightarrow> count_covers_mounted (onUnmounted now ow w)"
proof (cases "componentMounted (owners w ow)")
  case False
  assume "count_covers_mounted w"
  with False show ?thesis by (simp add: onUnmounted_def)
next
  case True
  assume a: "count_covers_mounted w"
  let ?M = "{x. componentMounted (owners w x)}"
  let ?st = "((shared w)\<lparr> connectionRefCount := connectionRefCount (shared w) - 1 \<rparr>,
              (owners w ow)\<lparr> componentMounted := False \<rparr>)"
  obtain g c where gc: "cleanupComponentListeners ?st = (g, c)"
    by (cases "cleanupComponentListeners ?st")
  from cleanup_keeps [of ?st] gc
  have g: "connectionRefCount g = connectionRefCount (shared w) - 1" and c: "\<not> componentMounted c"
    by simp_all
  have m: "{x. componentMounted (owners (onUnmounted now ow w) x)} = ?M - {ow}"
    using True c by (auto simp: onUnmounted_def gc)
  have cnt: "connectionRefCount (shared (onUnmounted now ow w)) = connectionRefCount (shared w) - 1"
    using True g by (simp add: onUnmounted_def gc)
  from a have f: "finite ?M" and le: "int (card ?M) \<le> connectionRefCount (shared w)"
    by (simp_all add: count_covers_mounted_def)
  from True have "ow \<in> ?M" by simp
  with f have "card (?M - {ow}) = card ?M - 1" and "1 \<le> card ?M"
    by (simp_all add: card_gt_0_iff Suc_le_eq) blast
  with le have "int (card (?M - {ow})) \<le> connectionRefCount (shared w) - 1"
    by linarith
  with f show ?thesis
    unfolding count_covers_mounted_def m cnt by simp
qed

lemma covers_run: "count_covers_mounted w \<Longrightarrow> count_covers_mounted (run w tr)"
  by (induction w tr rule: run.induct)
    (simp_all add: covers_fire_due covers_onMounted covers_onUnmounted)

lemma covers_positive:
  assumes "count_covers_mounted w" and "componentMounted (owners w ow)"
  shows "1 \<le> connectionRefCount (shared w)"
proof -
  let ?M = "{x. componentMounted (owners w x)}"
  from assms have "finite ?M" and "ow \<in> ?M"
    by (simp_all add: count_covers_mounted_def)
  then have "1 \<le> card ?M"
    by (simp add: card_gt_0_iff Suc_le_eq) blast
  with assms(1) show ?thesis
    unfolding count_covers_mounted_def by linarith
qed

lemma teardown_idle: "connectionRefCount (shared w) \<noteq> 0 \<Longrightarrow> teardown w = w"
  by (simp add: teardown_def)

lemma teardown_fold_idle:
  "connectionRefCount (shared w) \<noteq> 0 \<Longrightarrow> foldl (\<lambda>w' d. teardown w') w ds = w"
  by (induction ds arbitrary: w) (simp_all add: teardown_idle)


lemma off_link:
  "(socket (fst (off e cbo st)) = None) = (socket (fst st) = None)
   \<and> connected (fst (off e cbo st)) = connected (fst st)"
  by (cases st) (auto simp: off_def Let_def split: option.splits)

lemma release_link:
  "(socket (fst (foldl (\<lambda>st' (e, cb). off e (Some cb) st') st ps)) = None) = (socket (fst st) = None)
   \<and> connected (fst (foldl (\<lambda>st' (e, cb). off e (Some cb) st') st ps)) = connected (fst st)"
proof (induction ps arbitrary: st)
  case Nil
  show ?case by simp
next
  case (Cons p ps)
  obtain e cb where p: "p = (e, cb)" by (cases p)
  show ?case
    using Cons.IH [of "off e (Some cb) st"] off_link [of e "Some cb" st]
    by (simp add: p)
qed

lemma cleanup_link:
  "(socket (fst (cleanupComponentListeners st)) = None) = (socket (fst st) = None)
   \<and> connected (fst (cleanupComponentListeners st)) = connected (fst st)"
proof -
  obtain g c where f: "foldl (\<lambda>st' (e, cb). off e (Some cb) st') st (cl_pairs (componentListeners (snd st))) = (g, c)"
    by (cases "foldl (\<lambda>st' (e, cb). off e (Some cb) st') st (cl_pairs (componentListeners (snd st)))")
  with release_link [of st "cl_pairs (componentListeners (snd st))"] show ?thesis
    by (simp add: cleanupComponentListeners_def)
qed

lemma onMounted_effect:
  "timers (onMounted ow w) = timers w
   \<and> socket (shared (onMounted ow w)) = socket (shared w)
   \<and> connected (shared (onMounted ow w)) = connected (shared w)
   \<and> connectionRefCount (shared (onMounted ow w)) = connectionRefCount (shared w) + 1
   \<and> componentMounted (owners (onMounted ow w) ow)"
  by (simp add: onMounted_def)

lemma onUnmounted_effect:
  assumes "componentMounted (owners w ow)"
  shows "connectionRefCount (shared (onUnmounted now ow w)) = connectionRefCount (shared w) - 1
   \<and> timers (onUnmounted now ow w)
        = (if connectionRefCount (shared w) = 1 then timers w @ [now + 5000] else timers w)
   \<and> (socket (shared (onUnmounted now ow w)) = None) = (socket (shared w) = None)
   \<and> connected (shared (onUnmounted now ow w)) = connected (shared w)
   \<and> \<not> componentMounted (owners (onUnmounted now ow w) ow)"
proof -
  let ?st = "((shared w)\<lparr> connectionRefCount := connectionRefCount (shared w) - 1 \<rparr>,
              (owners w ow)\<lparr> componentMounted := False \<rparr>)"
  obtain g c where gc: "cleanupComponentListeners ?st = (g, c)"
    by (cases "cleanupComponentListeners ?st")
  from cleanup_keeps [of ?st] gc
  have k: "connectionRefCount g = connectionRefCount (shared w) - 1" "\<not> componentMounted c"
    by simp_all
  from cleanup_link [of ?st] gc
  have l: "(socket g = None) = (socket (shared w) = None)" "connected g = connected (shared w)"
    by simp_all
  have u: "onUnmounted now ow w = w\<lparr> shared := g, owners := (owners w)(ow := c),
      timers := (if connectionRefCount g = 0 then timers w @ [now + 5000] else timers w) \<rparr>"
    using assms by (simp add: onUnmounted_def gc)
  have z: "(connectionRefCount g = 0) = (connectionRefCount (shared w) = 1)"
    using k(1) by auto
  show ?thesis
    unfolding u using k l z by simp
qed

lemma onUnmounted_idle: "\<not> componentMounted (owners w ow) \<Longrightarrow> onUnmounted now ow w = w"
  by (simp add: onUnmounted_def)

lemma disconnect_again:
  "disconnect (disconnect g) = disconnect g
   \<and> connectionRefCount (disconnect g) = connectionRefCount g
   \<and> socket (disconnect g) = None"
  by (cases "socket g") (simp_all add: disconnect_def)

lemma teardown_eq:
  "teardown w = (if connectionRefCount (shared w) = 0 then w\<lparr> shared := disconnect (shared w) \<rparr> else w)"
  by (cases "socket (shared w)") (simp_all add: teardown_def disconnect_def)

lemma teardown_fold_eq:
  "foldl (\<lambda>w' d. teardown w') w ds
   = (if connectionRefCount (shared w) = 0 \<and> ds \<noteq> [] then w\<lparr> shared := disconnect (shared w) \<rparr> else w)"
proof (induction ds arbitrary: w)
  case Nil
  show ?case by simp
next
  case (Cons d ds)
  show ?case
    unfolding foldl_Cons Cons.IH
    by (simp add: teardown_eq disconnect_again)
qed

lemma fire_due_effect:
  "timers (fire_due T w) = filter (\<lambda>d. T < d) (timers w)
   \<and> owners (fire_due T w) = owners w
   \<and> shared (fire_due T w)
        = (if connectionRefCount (shared w) = 0 \<and> (\<exists>d \<in> set (timers w). d \<le> T)
           then disconnect (shared w) else shared w)"
proof -
  have "(filter (\<lambda>d. d \<le> T) (timers w) \<noteq> []) = (\<exists>d \<in> set (timers w). d \<le> T)"
    by (auto simp: filter_empty_conv)
  then show ?thesis
    by (auto simp add: fire_due_def teardown_fold_eq)
qed

text \<open>The window that an unmount opens when it takes the last reference.\<close>

lemma last_unmount:
  assumes "componentMounted (owners w ow)" and "connectionRefCount (shared w) = 1"
  shows "connectionRefCount (shared (run w [(t0, Unmount ow)])) = 0
       \<and> timers (run w [(t0, Unmount ow)]) = filter (\<lambda>d. t0 < d) (timers w) @ [t0 + 5000]
       \<and> (socket (shared (run w [(t0, Unmount ow)])) = None) = (socket (shared w) = None)
       \<and> connected (shared (run w [(t0, Unmount ow)])) = connected (shared w)"
proof -
  let ?w1 = "fire_due t0 w"
  from assms(2) have s1: "shared ?w1 = shared w"
    by (simp add: fire_due_effect)
  have m1: "componentMounted (owners ?w1 ow)"
    using assms(1) by (simp add: fire_due_effect)
  from onUnmounted_effect [OF m1, of t0] s1 assms(2) show ?thesis
    by (simp add: fire_due_effect)
qed

lemma window_open:
  assumes "componentMounted (owners w ow)" and "connectionRefCount (shared w) = 1"
    and "socket (shared w) \<noteq> None" and "\<forall>d \<in> set (timers w). d \<le> t0 \<or> T < d" and "T < t0 + 5000"
  shows "socket (shared (fire_due T (run w [(t0, Unmount ow)]))) \<noteq> None
       \<and> connected (shared (fire_due T (run w [(t0, Unmount ow)]))) = connected (shared w)"
proof -
  note U = last_unmount [OF assms(1,2), of t0]
  have "\<not> (\<exists>d \<in> set (timers (run w [(t0, Unmount ow)])). d \<le> T)"
    using assms(4,5) U by auto
  then have "shared (fire_due T (run w [(t0, Unmount ow)])) = shared (run w [(t0, Unmount ow)])"
    by (simp add: fire_due_effect)
  with U assms(3) show ?thesis by simp
qed

lemma window_closed:
  assumes "componentMounted (owners w ow)" and "connectionRefCount (shared w) = 1"
    and "t0 + 5000 \<le> T"
  shows "socket (shared (fire_due T (run w [(t0, Unmount ow)]))) = None"
proof -
  note U = last_unmount [OF assms(1,2), of t0]
  have "\<exists>d \<in> set (timers (run w [(t0, Unmount ow)])). d \<le> T"
    using assms(3) U by auto
  with U have "shared (fire_due T (run w [(t0, Unmount ow)])) = disconnect (shared (run w [(t0, Unmount ow)]))"
    by (simp add: fire_due_effect)
  then show ?thesis
    by (simp add: disconnect_again)
qed

lemma run_snoc: "run w (tr @ [(t, a)]) = run (run w tr) [(t, a)]"
  by (induction w tr rule: run.induct) simp_all

lemma window_remount:
  assumes "componentMounted (owners w ow)" and "connectionRefCount (shared w) = 1"
    and "socket (shared w) \<noteq> None" and "\<forall>d \<in> set (timers w). d \<le> t0 \<or> t1 < d" and "t1 < t0 + 5000"
  shows "socket (shared (fire_due T (run w [(t0, Unmount ow), (t1, Mount ow')]))) \<noteq> None
       \<and> connected (shared (fire_due T (run w [(t0, Unmount ow), (t1, Mount ow')]))) = connected (shared w)
       \<and> connectionRefCount (shared (fire_due T (run w [(t0, Unmount ow), (t1, Mount ow')]))) = 1"
proof -
  let ?w1 = "run w [(t0, Unmount ow)]"
  let ?w2 = "fire_due t1 ?w1"
  let ?w3 = "onMounted ow' ?w2"
  note U = last_unmount [OF assms(1,2), of t0]
  note O = window_open [OF assms]
  have r: "run w [(t0, Unmount ow), (t1, Mount ow')] = ?w3"
    using run_snoc [of w "[(t0, Unmount ow)]" t1 "Mount ow'"] by simp
  have "\<not> (\<exists>d \<in> set (timers ?w1). d \<le> t1)"
    using assms(4,5) U by auto
  then have s2: "shared ?w2 = shared ?w1"
    by (simp add: fire_due_effect)
  from onMounted_effect [of ow' ?w2] s2 U
  have c3: "connectionRefCount (shared ?w3) = 1" and k3: "socket (shared ?w3) = socket (shared ?w1)"
    and f3: "connected (shared ?w3) = connected (shared w)"
    by simp_all
  from c3 have "shared (fire_due T ?w3) = shared ?w3"
    by (simp add: fire_due_effect)
  with c3 k3 f3 U assms(3) show ?thesis
    unfolding r by simp
qed


lemma covers_nonneg: "count_covers_mounted w \<Longrightarrow> 0 \<le> connectionRefCount (shared w)"
  unfolding count_covers_mounted_def by linarith

text \<open>
  Claim C6, as the code has it. From a state in which every mounted owner has been counted
  (as when the module is loaded: count 0, nobody mounted), after any sequence of mounts and
  unmounts and at any time, the reference count is not negative. A mount adds one to the
  count and leaves the pending timers, the socket and the flag as they are: it cancels
  nothing. An unmount of a mounted owner takes one off the count, leaves the socket and
  the flag in place and, exactly when it takes the count to 0, sets a timer for 5000 ms
  later; an unmount of an owner that is not mounted does nothing. Letting the clock reach
  \<open>T\<close> removes the timers due by then and disconnects exactly when one of them is due and
  the count is 0: the callback does nothing with another count and leaves no socket with
  the count 0. So, when the last owner unmounts at \<open>t0\<close> and no older timer falls due in
  between: before \<open>t0 + 5000\<close> the connection is intact; from \<open>t0 + 5000\<close> on it is torn
  down if nothing else happened; and if a new owner mounts at some \<open>t1\<close> before
  \<open>t0 + 5000\<close> and nothing else happens, the connection is intact at every time. Whenever
  some owner is mounted, whichever timers are due, letting them fire leaves the shared
  state as it is.
\<close>

theorem C6_grace_teardown:
  assumes "count_covers_mounted w"
  shows "0 \<le> connectionRefCount (shared (fire_due T (run w tr)))
       \<and> (connectionRefCount (shared w') \<noteq> 0 \<longrightarrow> teardown w' = w')
       \<and> (connectionRefCount (shared w') = 0 \<longrightarrow> socket (shared (teardown w')) = None)
       \<and> (componentMounted (owners (run w tr) ow) \<longrightarrow>
            shared (fire_due T (run w tr)) = shared (run w tr))
       \<and> (timers (onMounted ow w') = timers w'
            \<and> socket (shared (onMounted ow w')) = socket (shared w')
            \<and> connected (shared (onMounted ow w')) = connected (shared w')
            \<and> connectionRefCount (shared (onMounted ow w')) = connectionRefCount (shared w') + 1
            \<and> componentMounted (owners (onMounted ow w') ow))
       \<and> (componentMounted (owners w' ow) \<longrightarrow>
            connectionRefCount (shared (onUnmounted now ow w')) = connectionRefCount (shared w') - 1
            \<and> timers (onUnmounted now ow w')
                 = (if connectionRefCount (shared w') = 1 then timers w' @ [now + 5000] else timers w')
            \<and> (socket (shared (onUnmounted now ow w')) = None) = (socket (shared w') = None)
            \<and> connected (shared (onUnmounted now ow w')) = connected (shared w')
            \<and> \<not> componentMounted (owners (onUnmounted now ow w') ow))
       \<and> (\<not> componentMounted (owners w' ow) \<longrightarrow> onUnmounted now ow w' = w')
       \<and> (timers (fire_due T w') = filter (\<lambda>d. T < d) (timers w')
            \<and> shared (fire_due T w')
                 = (if connectionRefCount (shared w') = 0 \<and> (\<exists>d \<in> set (timers w'). d \<le> T)
                    then disconnect (shared w') else shared w'))
       \<and> (componentMounted (owners w' ow) \<and> connectionRefCount (shared w') = 1
            \<and> socket (shared w') \<noteq> None \<and> (\<forall>d \<in> set (timers w'). d \<le> t0 \<or> T < d)
            \<and> T < t0 + 5000 \<longrightarrow>
              socket (shared (fire_due T (run w' [(t0, Unmount ow)]))) \<noteq> None
              \<and> connected (shared (fire_due T (run w' [(t0, Unmount ow)]))) = connected (shared w'))
       \<and> (componentMounted (owners w' ow) \<and> connectionRefCount (shared w') = 1
            \<and> t0 + 5000 \<le> T \<longrightarrow>
              socket (shared (fire_due T (run w' [(t0, Unmount ow)]))) = None)
       \<and> (componentMounted (owners w' ow) \<and> connectionRefCount (shared w') = 1
            \<and> socket (shared w') \<noteq> None \<and> (\<forall>d \<in> set (timers w'). d \<le> t0 \<or> t1 < d)
            \<and> t1 < t0 + 5000 \<longrightarrow>
              socket (shared (fire_due T (run w' [(t0, Unmount ow), (t1, Mount ow2)]))) \<noteq> None
              \<and> connected (shared (fire_due T (run w' [(t0, Unmount ow), (t1, Mount ow2)])))
                   = connected (shared w'))"
proof -
  have cov: "count_covers_mounted (run w tr)"
    by (rule covers_run [OF assms])
  then have nonneg: "0 \<le> connectionRefCount (shared (fire_due T (run w tr)))"
    by (intro covers_nonneg covers_fire_due)
  have idle: "connectionRefCount (shared w') \<noteq> 0 \<longrightarrow> teardown w' = w'"
    by (simp add: teardown_idle)
  have fires: "connectionRefCount (shared w') = 0 \<longrightarrow> socket (shared (teardown w')) = None"
    by (simp add: teardown_eq disconnect_again)
  have kept: "componentMounted (owners (run w tr) ow) \<longrightarrow>
      shared (fire_due T (run w tr)) = shared (run w tr)"
  proof
    assume "componentMounted (owners (run w tr) ow)"
    from covers_positive [OF cov this]
    have "connectionRefCount (shared (run w tr)) \<noteq> 0"
      by simp
    then show "shared (fire_due T (run w tr)) = shared (run w tr)"
      by (simp add: fire_due_effect)
  qed
  have mount: "timers (onMounted ow w') = timers w'
      \<and> socket (shared (onMounted ow w')) = socket (shared w')
      \<and> connected (shared (onMounted ow w')) = connected (shared w')
      \<and> connectionRefCount (shared (onMounted ow w')) = connectionRefCount (shared w') + 1
            \<and> componentMounted (owners (onMounted ow w') ow)"
    using onMounted_effect [of ow w'] by simp
  have unmount: "componentMounted (owners w' ow) \<longrightarrow>
      connectionRefCount (shared (onUnmounted now ow w')) = connectionRefCount (shared w') - 1
      \<and> timers (onUnmounted now ow w')
           = (if connectionRefCount (shared w') = 1 then timers w' @ [now + 5000] else timers w')
      \<and> (socket (shared (onUnmounted now ow w')) = None) = (socket (shared w') = None)
      \<and> connected (shared (onUnmounted now ow w')) = connected (shared w')
            \<and> \<not> componentMounted (owners (onUnmounted now ow w') ow)"
    using onUnmounted_effect [of w' ow now] by blast
  have unmount_idle: "\<not> componentMounted (owners w' ow) \<longrightarrow> onUnmounted now ow w' = w'"
    by (simp add: onUnmounted_idle)
  have fire: "timers (fire_due T w') = filter (\<lambda>d. T < d) (timers w')
      \<and> shared (fire_due T w')
           = (if connectionRefCount (shared w') = 0 \<and> (\<exists>d \<in> set (timers w'). d \<le> T)
              then disconnect (shared w') else shared w')"
    using fire_due_effect [of T w'] by blast
  have opened: "componentMounted (owners w' ow) \<and> connectionRefCount (shared w') = 1
      \<and> socket (shared w') \<noteq> None \<and> (\<forall>d \<in> set (timers w'). d \<le> t0 \<or> T < d)
      \<and> T < t0 + 5000 \<longrightarrow>
        socket (shared (fire_due T (run w' [(t0, Unmount ow)]))) \<noteq> None
        \<and> connected (shared (fire_due T (run w' [(t0, Unmount ow)]))) = connected (shared w')"
    using window_open [of w' ow t0 T] by blast
  have closed: "componentMounted (owners w' ow) \<and> connectionRefCount (shared w') = 1
      \<and> t0 + 5000 \<le> T \<longrightarrow>
        socket (shared (fire_due T (run w' [(t0, Unmount ow)]))) = None"
    using window_closed [of w' ow t0 T] by blast
  have remount: "componentMounted (owners w' ow) \<and> connectionRefCount (shared w') = 1
      \<and> socket (shared w') \<noteq> None \<and> (\<forall>d \<in> set (timers w'). d \<le> t0 \<or> t1 < d)
      \<and> t1 < t0 + 5000 \<longrightarrow>
        socket (shared (fire_due T (run w' [(t0, Unmount ow), (t1, Mount ow2)]))) \<noteq> None
        \<and> connected (shared (fire_due T (run w' [(t0, Unmount ow), (t1, Mount ow2)])))
             = connected (shared w')"
    using window_remount [of w' ow t0 t1 T ow2] by blast
  from nonneg idle fires kept mount unmount unmount_idle fire opened closed remount
  show ?thesis
    by - ((assumption | rule conjI)+)
qed


theorem C6_grace_teardown_witness:
  "count_covers_mounted w0
   \<and> componentMounted (owners (run w0 [(0, Mount 1), (1000, Unmount 1), (3000, Mount 2)]) 2)
   \<and> connectionRefCount (shared (run w0 [(0, Mount 1), (1000, Unmount 1), (3000, Mount 2)])) \<noteq> 0
   \<and> connectionRefCount (shared (run w0 [(0, Mount 1), (1000, Unmount 1)])) = 0
   \<and> shared (fire_due 6000 (run w0 [(0, Mount 1), (1000, Unmount 1), (3000, Mount 2)]))
        = shared (run w0 [(0, Mount 1), (1000, Unmount 1), (3000, Mount 2)])
   \<and> socket (shared (fire_due 6000 (run w0 [(0, Mount 1), (1000, Unmount 1), (3000, Mount 2)])))
        = socket g0
   \<and> socket (shared (teardown (run w0 [(0, Mount 1), (1000, Unmount 1)]))) = None
   \<and> componentMounted (owners (run w0 [(0, Mount 1)]) 1)
   \<and> connectionRefCount (shared (run w0 [(0, Mount 1)])) = 1
   \<and> socket (shared (run w0 [(0, Mount 1)])) \<noteq> None
   \<and> timers (run w0 [(0, Mount 1)]) = []
   \<and> timers (onUnmounted 1000 1 (run w0 [(0, Mount 1)])) = [6000]
   \<and> socket (shared (onUnmounted 1000 1 (run w0 [(0, Mount 1)]))) \<noteq> None
   \<and> socket (shared (fire_due 5999 (run (run w0 [(0, Mount 1)]) [(1000, Unmount 1)]))) \<noteq> None
   \<and> socket (shared (fire_due 6000 (run (run w0 [(0, Mount 1)]) [(1000, Unmount 1)]))) = None
   \<and> socket (shared (fire_due 9000 (run (run w0 [(0, Mount 1)])
        [(1000, Unmount 1), (3000, Mount 2)]))) \<noteq> None
   \<and> \<not> componentMounted (owners w0 1) \<and> onUnmounted 1000 1 w0 = w0"
proof -
  have h: "count_covers_mounted w0"
    by (simp add: count_covers_mounted_def w0_def)
  have r1: "run w0 [(0, Mount 1)]
      = \<lparr> shared = g0, owners = (\<lambda>x. \<lparr> componentMounted = (x = 1), componentListeners = [] \<rparr>),
          timers = [] \<rparr>"
    by (simp add: w0_def g0_def fire_due_def onMounted_def fun_eq_iff)
  have r2: "run w0 [(0, Mount 1), (1000, Unmount 1)]
      = \<lparr> shared = g0\<lparr> connectionRefCount := 0 \<rparr>,
          owners = (\<lambda>x. \<lparr> componentMounted = False, componentListeners = [] \<rparr>), timers = [6000] \<rparr>"
    by (simp add: w0_def g0_def fire_due_def onMounted_def onUnmounted_def
        cleanupComponentListeners_def cl_pairs_def fun_eq_iff)
  have r3: "run w0 [(0, Mount 1), (1000, Unmount 1), (3000, Mount 2)]
      = \<lparr> shared = g0, owners = (\<lambda>x. \<lparr> componentMounted = (x = 2), componentListeners = [] \<rparr>),
          timers = [6000] \<rparr>"
    by (simp add: w0_def g0_def fire_due_def onMounted_def onUnmounted_def
        cleanupComponentListeners_def cl_pairs_def fun_eq_iff)
  have m: "componentMounted (owners (run w0 [(0, Mount 1), (1000, Unmount 1), (3000, Mount 2)]) 2)"
    unfolding r3 by simp
  have c3: "connectionRefCount (shared (run w0 [(0, Mount 1), (1000, Unmount 1), (3000, Mount 2)])) \<noteq> 0"
    unfolding r3 by (simp add: g0_def)
  have c2: "connectionRefCount (shared (run w0 [(0, Mount 1), (1000, Unmount 1)])) = 0"
    unfolding r2 by simp
  have m1: "componentMounted (owners (run w0 [(0, Mount 1)]) 1)"
    unfolding r1 by simp
  have c1: "connectionRefCount (shared (run w0 [(0, Mount 1)])) = 1"
    unfolding r1 by (simp add: g0_def)
  have k1: "socket (shared (run w0 [(0, Mount 1)])) \<noteq> None"
    unfolding r1 by (simp add: g0_def)
  have t1: "timers (run w0 [(0, Mount 1)]) = []"
    unfolding r1 by simp
  have d1: "\<forall>d \<in> set (timers (run w0 [(0, Mount 1)])). d \<le> 1000 \<or> 5999 < d"
    and d2: "\<forall>d \<in> set (timers (run w0 [(0, Mount 1)])). d \<le> 1000 \<or> 3000 < d"
    unfolding t1 by simp_all
  have n1: "(5999 :: nat) < 1000 + 5000" and n2: "(1000 :: nat) + 5000 \<le> 6000"
    and n3: "(3000 :: nat) < 1000 + 5000"
    by simp_all
  have u0: "\<not> componentMounted (owners w0 1)"
    by (simp add: w0_def)
  note A = C6_grace_teardown [OF h, where tr = "[(0, Mount 1), (1000, Unmount 1), (3000, Mount 2)]"
      and T = 6000 and ow = 2 and w' = "run w0 [(0, Mount 1), (1000, Unmount 1)]"]
  from A m have a1: "shared (fire_due 6000 (run w0 [(0, Mount 1), (1000, Unmount 1), (3000, Mount 2)]))
        = shared (run w0 [(0, Mount 1), (1000, Unmount 1), (3000, Mount 2)])"
    by blast
  from a1 have a2: "socket (shared (fire_due 6000 (run w0 [(0, Mount 1), (1000, Unmount 1), (3000, Mount 2)])))
        = socket g0"
    unfolding r3 by simp
  from A c2 have a3: "socket (shared (teardown (run w0 [(0, Mount 1), (1000, Unmount 1)]))) = None"
    by blast
  note B = C6_grace_teardown [OF h, where tr = "[]" and w' = "run w0 [(0, Mount 1)]" and ow = 1
      and now = 1000 and ?t0.0 = 1000 and T = 5999]
  from B m1 have "timers (onUnmounted 1000 1 (run w0 [(0, Mount 1)]))
      = (if connectionRefCount (shared (run w0 [(0, Mount 1)])) = 1
         then timers (run w0 [(0, Mount 1)]) @ [1000 + 5000] else timers (run w0 [(0, Mount 1)]))"
    and b0: "(socket (shared (onUnmounted 1000 1 (run w0 [(0, Mount 1)]))) = None)
      = (socket (shared (run w0 [(0, Mount 1)])) = None)"
    by blast+
  then have "timers (onUnmounted 1000 1 (run w0 [(0, Mount 1)])) = [1000 + 5000]"
    by (simp only: c1 t1 refl if_True append_Nil)
  then have b1: "timers (onUnmounted 1000 1 (run w0 [(0, Mount 1)])) = [6000]"
    by simp
  from b0 k1 have b2: "socket (shared (onUnmounted 1000 1 (run w0 [(0, Mount 1)]))) \<noteq> None"
    by simp
  from B m1 c1 k1 d1 n1
  have b3: "socket (shared (fire_due 5999 (run (run w0 [(0, Mount 1)]) [(1000, Unmount 1)]))) \<noteq> None"
    by blast
  note C = C6_grace_teardown [OF h, where tr = "[]" and w' = "run w0 [(0, Mount 1)]" and ow = 1
      and ?t0.0 = 1000 and T = 6000]
  from C m1 c1 n2
  have b4: "socket (shared (fire_due 6000 (run (run w0 [(0, Mount 1)]) [(1000, Unmount 1)]))) = None"
    by blast
  note D = C6_grace_teardown [OF h, where tr = "[]" and w' = "run w0 [(0, Mount 1)]" and ow = 1
      and ?t0.0 = 1000 and ?t1.0 = 3000 and T = 9000 and ?ow2.0 = 2]
  from D m1 c1 k1 d2 n3
  have b5: "socket (shared (fire_due 9000 (run (run w0 [(0, Mount 1)])
        [(1000, Unmount 1), (3000, Mount 2)]))) \<noteq> None"
    by blast
  note E = C6_grace_teardown [OF h, where tr = "[]" and w' = w0 and ow = 1 and now = 1000]
  from E u0 have b6: "onUnmounted 1000 1 w0 = w0"
    by blast
  from h m c3 c2 a1 a2 a3 m1 c1 k1 t1 b1 b2 b3 b4 b5 u0 b6 show ?thesis
    by - ((assumption | rule conjI)+)
qed

text \<open>
  Claim C6 as the specification words it fails. The count reaches 0 at 1000 ms, a new
  owner mounts at 3000 ms, two seconds into the window, and unmounts at 5000 ms. The timer
  set at 1000 ms fires at 6000 ms, finds the count 0 and disconnects, although the count
  was 1 for two of the five seconds.
\<close>

theorem C6_remount_within_window_counterexample:
  "connectionRefCount (shared (run w0 [(0, Mount 1), (1000, Unmount 1)])) = 0
   \<and> connectionRefCount (shared (run w0 [(0, Mount 1), (1000, Unmount 1), (3000, Mount 2)])) = 1
   \<and> socket (shared (fire_due 5999
        (run w0 [(0, Mount 1), (1000, Unmount 1), (3000, Mount 2), (5000, Unmount 2)]))) \<noteq> None
   \<and> socket (shared (fire_due 6000
        (run w0 [(0, Mount 1), (1000, Unmount 1), (3000, Mount 2), (5000, Unmount 2)]))) = None
   \<and> \<not> connected (shared (fire_due 6000
        (run w0 [(0, Mount 1), (1000, Unmount 1), (3000, Mount 2), (5000, Unmount 2)])))"
  by (simp add: w0_def g0_def fire_due_def onMounted_def onUnmounted_def
      cleanupComponentListeners_def cl_pairs_def teardown_def disconnect_def)

section \<open>Requests: proofs\<close>


lemma joinTask_deliver_closed:
  "listening p = [] \<Longrightarrow> foldl (joinTask_deliver taskId) p evs = p"
  by (induction evs) (auto simp: joinTask_deliver_def)

lemma joinTask_waiting:
  assumes "settled p = None" and "listening p = [''joined'']"
  shows "foldl (joinTask_deliver taskId) p evs =
     (case find (joined_for taskId) evs of
        None \<Rightarrow> p
      | Some ev \<Rightarrow> p\<lparr> listening := [], settled := Some (Resolved (), fst ev) \<rparr>)"
proof (induction evs)
  case Nil
  show ?case by simp
next
  case (Cons ev evs)
  obtain t name d where ev: "ev = (t, name, d)" by (cases ev)
  show ?case
  proof (cases "joined_for taskId ev")
    case True
    then have "joinTask_deliver taskId p ev = p\<lparr> listening := [], settled := Some (Resolved (), t) \<rparr>"
      using assms by (simp add: joinTask_deliver_def onJoined_def settle_def joined_for_def ev)
    then show ?thesis
      using True by (simp add: joinTask_deliver_closed ev)
  next
    case False
    then have "joinTask_deliver taskId p ev = p"
      by (auto simp add: joinTask_deliver_def onJoined_def joined_for_def ev)
    then show ?thesis
      using False Cons.IH by simp
  qed
qed

lemma find_takeWhile_time:
  "find P (takeWhile (\<lambda>ev. fst ev < (n::nat)) inc) = Some ev \<Longrightarrow> fst ev < n"
proof -
  assume "find P (takeWhile (\<lambda>ev. fst ev < n) inc) = Some ev"
  then have "ev \<in> set (takeWhile (\<lambda>ev. fst ev < n) inc)"
    by (auto simp: find_Some_iff)
  then show ?thesis
    by (auto dest: set_takeWhileD)
qed

lemma joinTask_result:
  assumes "live g"
  shows "joinTask g taskId inc =
     (case first_joined taskId inc of
        None \<Rightarrow> \<lparr> settled = Some (Resolved (), 2000), listening = [],
                   sent = [(''join_task'', [taskId])], ignored = 0 \<rparr>
      | Some ev \<Rightarrow> \<lparr> settled = Some (Resolved (), fst ev), listening = [],
                   sent = [(''join_task'', [taskId])], ignored = 1 \<rparr>)"
proof -
  let ?p0 = "joinTask_start g taskId"
  have p0: "?p0 = \<lparr> settled = None, listening = [''joined''], sent = [(''join_task'', [taskId])], ignored = 0 \<rparr>"
    using assms by (simp add: joinTask_start_def)
  then have w: "settled ?p0 = None" "listening ?p0 = [''joined'']"
    by simp_all
  show ?thesis
    unfolding joinTask_def first_joined_def joinTask_waiting [OF w]
    using assms
    by (auto simp add: p0 joinTask_timeout_def settle_def joinTask_deliver_closed split: option.splits)
qed

text \<open>
  Claim C4. Without a connected socket \<open>joinTask(taskId)\<close> rejects at once with the
  connection error. With one, the promise resolves and never rejects, at 2000 ms at the
  latest on the clock that fires the timer at its delay: at the arrival of the first
  \<open>joined\<close> acknowledgment for the task if one arrives before 2000 ms, and at 2000 ms
  when none does. The \<open>joined\<close> listener is gone afterwards.
\<close>

theorem C4_joinTask_settles:
  "(\<not> live g \<longrightarrow> settled (joinTask g taskId inc) = Some (Rejected TXT_not_connected, 0))
   \<and> (live g \<longrightarrow>
        (\<exists>t\<le>2000. settled (joinTask g taskId inc) = Some (Resolved (), t))
        \<and> (first_joined taskId inc = None \<longrightarrow>
              settled (joinTask g taskId inc) = Some (Resolved (), 2000))
        \<and> (\<forall>ev. first_joined taskId inc = Some ev \<longrightarrow>
              settled (joinTask g taskId inc) = Some (Resolved (), fst ev) \<and> fst ev < 2000)
        \<and> listening (joinTask g taskId inc) = [])"
proof (cases "live g")
  case False
  then show ?thesis
    by (simp add: joinTask_def joinTask_start_def)
next
  case True
  show ?thesis
  proof (cases "first_joined taskId inc")
    case None
    with True show ?thesis
      by (simp add: joinTask_result)
  next
    case (Some ev)
    then have "fst ev < 2000"
      unfolding first_joined_def by (rule find_takeWhile_time)
    with True Some show ?thesis
      by (simp add: joinTask_result)
  qed
qed

theorem C4_joinTask_settles_witness:
  "\<not> live (g0\<lparr> socket := None \<rparr>)
   \<and> settled (joinTask (g0\<lparr> socket := None \<rparr>) ''t1'' []) = Some (Rejected TXT_not_connected, 0)
   \<and> live g0
   \<and> first_joined ''t1'' [(150, ''joined'', ack_for ''t2'')] = None
   \<and> settled (joinTask g0 ''t1'' [(150, ''joined'', ack_for ''t2'')]) = Some (Resolved (), 2000)
   \<and> first_joined ''t1'' [(150, ''joined'', ack_for ''t2''), (320, ''joined'', ack_for ''t1'')]
        = Some (320, ''joined'', ack_for ''t1'')
   \<and> settled (joinTask g0 ''t1'' [(150, ''joined'', ack_for ''t2''), (320, ''joined'', ack_for ''t1'')])
        = Some (Resolved (), 320)"
proof -
  have h0: "\<not> live (g0\<lparr> socket := None \<rparr>)"
    by (simp add: live_def)
  have h1: "live g0"
    by (simp add: live_def g0_def)
  have f1: "first_joined ''t1'' [(150, ''joined'', ack_for ''t2'')] = None"
    by (simp add: first_joined_def joined_for_def ack_for_def)
  have f2: "first_joined ''t1'' [(150, ''joined'', ack_for ''t2''), (320, ''joined'', ack_for ''t1'')]
        = Some (320, ''joined'', ack_for ''t1'')"
    by (simp add: first_joined_def joined_for_def ack_for_def)
  have a: "settled (joinTask (g0\<lparr> socket := None \<rparr>) ''t1'' []) = Some (Rejected TXT_not_connected, 0)"
    using h0 C4_joinTask_settles [of "g0\<lparr> socket := None \<rparr>" "''t1''" "[]"] by blast
  have b: "settled (joinTask g0 ''t1'' [(150, ''joined'', ack_for ''t2'')]) = Some (Resolved (), 2000)"
    using h1 f1 C4_joinTask_settles [of g0 "''t1''" "[(150, ''joined'', ack_for ''t2'')]"] by blast
  have "settled (joinTask g0 ''t1'' [(150, ''joined'', ack_for ''t2''), (320, ''joined'', ack_for ''t1'')])
        = Some (Resolved (), fst (320 :: nat, ''joined'', ack_for ''t1''))"
    using h1 f2 C4_joinTask_settles [of g0 "''t1''"
        "[(150, ''joined'', ack_for ''t2''), (320, ''joined'', ack_for ''t1'')]"] by blast
  then have c: "settled (joinTask g0 ''t1'' [(150, ''joined'', ack_for ''t2''), (320, ''joined'', ack_for ''t1'')])
        = Some (Resolved (), 320)"
    by (simp only: fst_conv)
  show ?thesis
    using h0 a h1 f1 b f2 c by blast
qed



lemma sendInstruction_deliver_closed:
  "listening p = [] \<Longrightarrow> foldl (sendInstruction_deliver taskId) p evs = p"
  by (induction evs) (auto simp: sendInstruction_deliver_def)

lemma sendInstruction_waiting:
  assumes "settled p = None" and "listening p = [''instruction_received'', ''instruction_error'']"
  shows "foldl (sendInstruction_deliver taskId) p evs =
     (case find (answers taskId) evs of
        None \<Rightarrow> p
      | Some ev \<Rightarrow> p\<lparr> listening := [], settled := Some (answer_outcome ev, fst ev) \<rparr>)"
proof (induction evs)
  case Nil
  show ?case by simp
next
  case (Cons ev evs)
  obtain t name d where ev: "ev = (t, name, d)" by (cases ev)
  show ?case
  proof (cases "answers taskId ev")
    case True
    then have "sendInstruction_deliver taskId p ev
        = p\<lparr> listening := [], settled := Some (answer_outcome ev, t) \<rparr>"
      using assms
      by (auto simp add: sendInstruction_deliver_def onReceived_def onError_def settle_def
          unlisten_def answers_def answer_outcome_def ev)
    then show ?thesis
      using True by (simp add: sendInstruction_deliver_closed ev)
  next
    case False
    then have "sendInstruction_deliver taskId p ev = p"
      by (auto simp add: sendInstruction_deliver_def onReceived_def onError_def answers_def ev)
    then show ?thesis
      using False Cons.IH by simp
  qed
qed

lemma sendInstruction_result:
  assumes "live g"
  shows "sendInstruction g taskId x inc =
     (case first_answer taskId inc of
        None \<Rightarrow> \<lparr> settled = Some (Rejected TXT_instruction_timeout, 30000), listening = [],
                   sent = [(''send_instruction'', [taskId, x])], ignored = 0 \<rparr>
      | Some ev \<Rightarrow> \<lparr> settled = Some (answer_outcome ev, fst ev), listening = [],
                   sent = [(''send_instruction'', [taskId, x])], ignored = 1 \<rparr>)"
proof -
  let ?p0 = "sendInstruction_start g taskId x"
  have p0: "?p0 = \<lparr> settled = None, listening = [''instruction_received'', ''instruction_error''],
      sent = [(''send_instruction'', [taskId, x])], ignored = 0 \<rparr>"
    using assms by (simp add: sendInstruction_start_def)
  then have w: "settled ?p0 = None" "listening ?p0 = [''instruction_received'', ''instruction_error'']"
    by simp_all
  show ?thesis
    unfolding sendInstruction_def first_answer_def sendInstruction_waiting [OF w]
    using assms
    by (auto simp add: p0 sendInstruction_timeout_def settle_def unlisten_def
        sendInstruction_deliver_closed split: option.splits)
qed

lemma sendInstruction_prefix:
  assumes "live g"
  shows "settled (foldl (sendInstruction_deliver taskId) (sendInstruction_start g taskId x) evs) = None
       \<or> listening (foldl (sendInstruction_deliver taskId) (sendInstruction_start g taskId x) evs) = []"
proof -
  let ?p0 = "sendInstruction_start g taskId x"
  have w: "settled ?p0 = None" "listening ?p0 = [''instruction_received'', ''instruction_error'']"
    using assms by (simp_all add: sendInstruction_start_def)
  show ?thesis
    unfolding sendInstruction_waiting [OF w]
    by (simp add: w split: option.splits)
qed

text \<open>
  Claim C5. On a connected socket, \<open>sendInstruction(taskId, x)\<close> resolves exactly when
  the first answer for the task that arrives before 30000 ms is an
  \<open>instruction_received\<close>, and it resolves with that payload at that time. When the first
  answer is an \<open>instruction_error\<close> it rejects with the message of the payload (with the
  stock message when the payload has none); when no answer arrives before 30000 ms it
  rejects with the timeout error at 30000 ms. The promise has one outcome, both listeners
  are removed in the end, and at every moment of the wait a settled promise has no
  listener left.
\<close>

theorem C5_sendInstruction_outcome:
  assumes "live g"
  shows "((\<exists>d t. settled (sendInstruction g taskId x inc) = Some (Resolved d, t))
          \<longleftrightarrow> (\<exists>ev. first_answer taskId inc = Some ev \<and> fst (snd ev) = ''instruction_received''))
       \<and> (\<forall>ev. first_answer taskId inc = Some ev \<and> fst (snd ev) = ''instruction_received'' \<longrightarrow>
             settled (sendInstruction g taskId x inc) = Some (Resolved (snd (snd ev)), fst ev))
       \<and> (\<forall>ev. first_answer taskId inc = Some ev \<and> fst (snd ev) = ''instruction_error'' \<longrightarrow>
             settled (sendInstruction g taskId x inc)
               = Some (Rejected (js_or (a_error (snd (snd ev))) TXT_instruction_failed), fst ev))
       \<and> (first_answer taskId inc = None \<longrightarrow>
             settled (sendInstruction g taskId x inc) = Some (Rejected TXT_instruction_timeout, 30000))
       \<and> listening (sendInstruction g taskId x inc) = []
       \<and> (\<forall>k. settled (foldl (sendInstruction_deliver taskId) (sendInstruction_start g taskId x)
                   (take k inc)) = None
             \<or> listening (foldl (sendInstruction_deliver taskId) (sendInstruction_start g taskId x)
                   (take k inc)) = [])"
proof -
  note R = sendInstruction_result [OF assms, of taskId x inc]
  have pre: "\<forall>k. settled (foldl (sendInstruction_deliver taskId) (sendInstruction_start g taskId x)
                   (take k inc)) = None
             \<or> listening (foldl (sendInstruction_deliver taskId) (sendInstruction_start g taskId x)
                   (take k inc)) = []"
    using sendInstruction_prefix [OF assms] by blast
  show ?thesis
  proof (cases "first_answer taskId inc")
    case None
    with R pre show ?thesis by simp
  next
    case (Some ev)
    then have "answers taskId ev"
      unfolding first_answer_def by (auto simp: find_Some_iff)
    then have "fst (snd ev) = ''instruction_received'' \<or> fst (snd ev) = ''instruction_error''"
      by (simp add: answers_def)
    with R Some pre show ?thesis
      by (auto simp add: answer_outcome_def)
  qed
qed



theorem C5_sendInstruction_outcome_witness:
  "live g0
   \<and> first_answer ''t1'' [(100, ''instruction_received'', ack_for ''t9''),
        (200, ''instruction_received'', ack_for ''t1''), (300, ''instruction_error'', nack_for ''t1'' ''bad'')]
       = Some (200, ''instruction_received'', ack_for ''t1'')
   \<and> settled (sendInstruction g0 ''t1'' ''x'' [(100, ''instruction_received'', ack_for ''t9''),
        (200, ''instruction_received'', ack_for ''t1''), (300, ''instruction_error'', nack_for ''t1'' ''bad'')])
       = Some (Resolved (ack_for ''t1''), 200)
   \<and> first_answer ''t1'' [(300, ''instruction_error'', nack_for ''t1'' ''bad''),
        (400, ''instruction_received'', ack_for ''t1'')]
       = Some (300, ''instruction_error'', nack_for ''t1'' ''bad'')
   \<and> settled (sendInstruction g0 ''t1'' ''x'' [(300, ''instruction_error'', nack_for ''t1'' ''bad''),
        (400, ''instruction_received'', ack_for ''t1'')])
       = Some (Rejected ''bad'', 300)
   \<and> first_answer ''t1'' [(30000, ''instruction_received'', ack_for ''t1'')] = None
   \<and> settled (sendInstruction g0 ''t1'' ''x'' [(30000, ''instruction_received'', ack_for ''t1'')])
       = Some (Rejected TXT_instruction_timeout, 30000)"
proof -
  have h: "live g0"
    by (simp add: live_def g0_def)
  have f1: "first_answer ''t1'' [(100, ''instruction_received'', ack_for ''t9''),
        (200, ''instruction_received'', ack_for ''t1''), (300, ''instruction_error'', nack_for ''t1'' ''bad'')]
       = Some (200, ''instruction_received'', ack_for ''t1'')"
    by (simp add: first_answer_def answers_def ack_for_def nack_for_def)
  have f2: "first_answer ''t1'' [(300, ''instruction_error'', nack_for ''t1'' ''bad''),
        (400, ''instruction_received'', ack_for ''t1'')]
       = Some (300, ''instruction_error'', nack_for ''t1'' ''bad'')"
    by (simp add: first_answer_def answers_def ack_for_def nack_for_def)
  have f3: "first_answer ''t1'' [(30000, ''instruction_received'', ack_for ''t1'')] = None"
    by (simp add: first_answer_def)
  have n1: "fst (snd (200 :: nat, ''instruction_received'', ack_for ''t1'')) = ''instruction_received''"
    by simp
  have n2: "fst (snd (300 :: nat, ''instruction_error'', nack_for ''t1'' ''bad'')) = ''instruction_error''"
    by simp
  have e: "js_or (a_error (nack_for ''t1'' ''bad'')) TXT_instruction_failed = ''bad''"
    by (simp add: js_or_def nack_for_def)
  have "settled (sendInstruction g0 ''t1'' ''x'' [(100, ''instruction_received'', ack_for ''t9''),
        (200, ''instruction_received'', ack_for ''t1''), (300, ''instruction_error'', nack_for ''t1'' ''bad'')])
       = Some (Resolved (snd (snd (200 :: nat, ''instruction_received'', ack_for ''t1''))),
               fst (200 :: nat, ''instruction_received'', ack_for ''t1''))"
    using f1 n1 C5_sendInstruction_outcome [OF h, of "''t1''" "''x''"
        "[(100, ''instruction_received'', ack_for ''t9''), (200, ''instruction_received'', ack_for ''t1''),
          (300, ''instruction_error'', nack_for ''t1'' ''bad'')]"]
    by blast
  then have a: "settled (sendInstruction g0 ''t1'' ''x'' [(100, ''instruction_received'', ack_for ''t9''),
        (200, ''instruction_received'', ack_for ''t1''), (300, ''instruction_error'', nack_for ''t1'' ''bad'')])
       = Some (Resolved (ack_for ''t1''), 200)"
    by (simp only: fst_conv snd_conv)
  have "settled (sendInstruction g0 ''t1'' ''x'' [(300, ''instruction_error'', nack_for ''t1'' ''bad''),
        (400, ''instruction_received'', ack_for ''t1'')])
       = Some (Rejected (js_or (a_error (snd (snd (300 :: nat, ''instruction_error'', nack_for ''t1'' ''bad''))))
                 TXT_instruction_failed),
               fst (300 :: nat, ''instruction_error'', nack_for ''t1'' ''bad''))"
    using f2 n2 C5_sendInstruction_outcome [OF h, of "''t1''" "''x''"
        "[(300, ''instruction_error'', nack_for ''t1'' ''bad''), (400, ''instruction_received'', ack_for ''t1'')]"]
    by blast
  then have b: "settled (sendInstruction g0 ''t1'' ''x'' [(300, ''instruction_error'', nack_for ''t1'' ''bad''),
        (400, ''instruction_received'', ack_for ''t1'')])
       = Some (Rejected ''bad'', 300)"
    by (simp only: fst_conv snd_conv e)
  have c: "settled (sendInstruction g0 ''t1'' ''x'' [(30000, ''instruction_received'', ack_for ''t1'')])
       = Some (Rejected TXT_instruction_timeout, 30000)"
    using f3 C5_sendInstruction_outcome [OF h, of "''t1''" "''x''"
        "[(30000, ''instruction_received'', ack_for ''t1'')]"]
    by blast
  show ?thesis
    using h f1 a f2 b f3 c by blast
qed

section \<open>Reconnection: proofs\<close>


lemma connect_fulfilled_live: "connect r g = (Fulfilled, g') \<Longrightarrow> live g'"
  by (auto simp: connect_def live_def split: if_splits await.splits)

lemma joinTask_live: "live g \<Longrightarrow> \<exists>t. settled (joinTask g taskId inc) = Some (Resolved (), t)"
  by (simp add: joinTask_result split: option.splits)

lemma try_reconnect_failed:
  assumes "try_reconnect answer s = (Failed, s')"
  shows "reconnectAttempts s' = reconnectAttempts s \<and> connectCalls s' = Suc (connectCalls s)
     \<and> currentTaskId s' = currentTaskId s \<and> isReconnecting s' = isReconnecting s
     \<and> connected (link s') = connected (link s) \<and> \<not> live (link s) \<and> \<not> live (link s')"
proof -
  obtain a g where c: "connect (fst answer) (link s) = (a, g)"
    by (cases "connect (fst answer) (link s)")
  show ?thesis
  proof (cases a)
    case Fulfilled
    with c have "live g" by (simp add: connect_fulfilled_live)
    then obtain t where "settled (joinTask g (currentTaskId s) (snd answer)) = Some (Resolved (), t)"
      using joinTask_live by blast
    with assms c Fulfilled show ?thesis
      by (simp add: try_reconnect_def Let_def split: if_splits)
  next
    case Failed
    with c have "\<not> live (link s)" and "g = (link s)\<lparr> socket := Some \<lparr> sock_connected = False, sock_handlers = [] \<rparr> \<rparr>"
      by (auto simp: connect_def split: if_splits await.splits)
    with assms c Failed show ?thesis
      by (auto simp add: try_reconnect_def live_def)
  next
    case Never
    with assms c show ?thesis
      by (simp add: try_reconnect_def)
  qed
qed



lemma try_reconnect_fulfilled:
  assumes "try_reconnect answer s = (Fulfilled, s')"
  shows "reconnectAttempts s' = 0 \<and> \<not> isReconnecting s' \<and> connectCalls s' = Suc (connectCalls s)
     \<and> live (link s')"
proof -
  obtain a g where c: "connect (fst answer) (link s) = (a, g)"
    by (cases "connect (fst answer) (link s)")
  show ?thesis
  proof (cases a)
    case Fulfilled
    with c have "live g" by (simp add: connect_fulfilled_live)
    with assms c Fulfilled show ?thesis
      by (auto simp add: try_reconnect_def Let_def split: if_splits option.splits outcome.splits)
  next
    case Failed
    with assms c show ?thesis by (simp add: try_reconnect_def)
  next
    case Never
    with assms c show ?thesis by (simp add: try_reconnect_def)
  qed
qed

lemma try_reconnect_calls:
  "connectCalls (snd (try_reconnect answer s)) = Suc (connectCalls s)"
  by (auto simp add: try_reconnect_def Let_def split: prod.splits await.splits option.splits outcome.splits)

lemma attemptReconnect_post: "reconnect_post s (attemptReconnect env s)"
proof (induction env s rule: attemptReconnect.induct)
  case (1 env s)
  show ?case
  proof (cases "MAX_RECONNECT_ATTEMPTS \<le> reconnectAttempts s")
    case True
    then show ?thesis
      by (subst attemptReconnect.simps) (simp add: reconnect_post_def)
  next
    case False
    let ?s1 = "s\<lparr> isReconnecting := True, reconnectAttempts := reconnectAttempts s + 1 \<rparr>"
    obtain a s' where t: "try_reconnect (env (connectCalls s)) ?s1 = (a, s')"
      by (cases "try_reconnect (env (connectCalls s)) ?s1")
    have calls: "connectCalls s' = Suc (connectCalls s)"
      using try_reconnect_calls [of "env (connectCalls s)" ?s1] t by simp
    show ?thesis
    proof (cases a)
      case Fulfilled
      with False t have r: "attemptReconnect env s = (Returns True, s')"
        by (subst attemptReconnect.simps) simp
      from try_reconnect_fulfilled [of "env (connectCalls s)" ?s1 s'] t Fulfilled
      have "reconnectAttempts s' = 0 \<and> \<not> isReconnecting s' \<and> live (link s')"
        by simp
      with False calls show ?thesis
        unfolding r reconnect_post_def by simp
    next
      case Never
      with False t have r: "attemptReconnect env s = (Hangs, s')"
        by (subst attemptReconnect.simps) simp
      from False calls show ?thesis
        unfolding r reconnect_post_def by simp
    next
      case Failed
      with False t have r: "attemptReconnect env s = attemptReconnect env s'"
        by (subst attemptReconnect.simps) simp
      from try_reconnect_failed [of "env (connectCalls s)" ?s1 s'] t Failed
      have f: "reconnectAttempts s' = reconnectAttempts s + 1"
        "connected (link s') = connected (link s)" "\<not> live (link s)" "\<not> live (link s')"
        by simp_all
      from "1.IH" [OF False t [symmetric] Failed]
      have IH: "reconnect_post s' (attemptReconnect env s')" .
      from False f(1) have n: "nat (MAX_RECONNECT_ATTEMPTS - reconnectAttempts s)
          = Suc (nat (MAX_RECONNECT_ATTEMPTS - reconnectAttempts s'))"
        and mx: "max MAX_RECONNECT_ATTEMPTS (reconnectAttempts s') = max MAX_RECONNECT_ATTEMPTS (reconnectAttempts s)"
        by simp_all
      from IH show ?thesis
        unfolding r reconnect_post_def calls n mx f(2) using f(3,4) by simp
    qed
  qed
qed


text \<open>
  Claim C7. A call of \<open>attemptReconnect\<close> never throws. It calls \<open>connect()\<close> at most
  \<open>5 - reconnectAttempts\<close> times, so at most 5 times from a counter at 0, each try adding
  one to the counter. When it returns true the counter is back at 0, the reconnecting flag
  is down and the socket is connected. When it returns false from a counter of at most 5,
  it has made exactly the tries that were left, the counter is 5, the reconnecting flag is
  down, the \<open>connected\<close> flag is what it was and a socket that was not connected still is
  not. With the counter at 5 or more it returns false at once, without any try.
\<close>

theorem C7_bounded_reconnect:
  "(\<forall>m. fst (attemptReconnect env s) \<noteq> Throws m)
   \<and> connectCalls (snd (attemptReconnect env s))
        \<le> connectCalls s + nat (MAX_RECONNECT_ATTEMPTS - reconnectAttempts s)
   \<and> (reconnectAttempts s = 0 \<longrightarrow> connectCalls (snd (attemptReconnect env s)) \<le> connectCalls s + 5)
   \<and> (fst (attemptReconnect env s) = Returns True \<longrightarrow>
         reconnectAttempts (snd (attemptReconnect env s)) = 0
         \<and> \<not> isReconnecting (snd (attemptReconnect env s))
         \<and> live (link (snd (attemptReconnect env s))))
   \<and> (fst (attemptReconnect env s) = Returns False \<and> reconnectAttempts s \<le> MAX_RECONNECT_ATTEMPTS \<longrightarrow>
         reconnectAttempts (snd (attemptReconnect env s)) = MAX_RECONNECT_ATTEMPTS
         \<and> \<not> isReconnecting (snd (attemptReconnect env s))
         \<and> connectCalls (snd (attemptReconnect env s))
              = connectCalls s + nat (MAX_RECONNECT_ATTEMPTS - reconnectAttempts s)
         \<and> connected (link (snd (attemptReconnect env s))) = connected (link s)
         \<and> (\<not> live (link s) \<longrightarrow> \<not> live (link (snd (attemptReconnect env s)))))
   \<and> (MAX_RECONNECT_ATTEMPTS \<le> reconnectAttempts s \<longrightarrow>
         attemptReconnect env s = (Returns False, s\<lparr> isReconnecting := False \<rparr>))"
proof -
  note P = attemptReconnect_post [of s env, unfolded reconnect_post_def]
  have five: "nat (MAX_RECONNECT_ATTEMPTS - reconnectAttempts s) = 5" if "reconnectAttempts s = 0"
    using that by (simp add: MAX_RECONNECT_ATTEMPTS_def)
  have stop: "attemptReconnect env s = (Returns False, s\<lparr> isReconnecting := False \<rparr>)"
    if "MAX_RECONNECT_ATTEMPTS \<le> reconnectAttempts s"
    using that by (subst attemptReconnect.simps) simp
  from P have c: "connectCalls (snd (attemptReconnect env s))
        \<le> connectCalls s + nat (MAX_RECONNECT_ATTEMPTS - reconnectAttempts s)"
    by blast
  have c5: "reconnectAttempts s = 0 \<longrightarrow> connectCalls (snd (attemptReconnect env s)) \<le> connectCalls s + 5"
  proof
    assume z: "reconnectAttempts s = 0"
    from c five [OF z] show "connectCalls (snd (attemptReconnect env s)) \<le> connectCalls s + 5"
      by simp
  qed
  from P have m: "fst (attemptReconnect env s) = Returns False \<and> reconnectAttempts s \<le> MAX_RECONNECT_ATTEMPTS \<longrightarrow>
         reconnectAttempts (snd (attemptReconnect env s)) = MAX_RECONNECT_ATTEMPTS"
    by (simp add: max_def)
  from P c c5 m stop show ?thesis
    by blast
qed

theorem C7_bounded_reconnect_witness:
  "reconnectAttempts s_lost = 0 \<and> \<not> live (link s_lost)
   \<and> fst (attemptReconnect env_refusing s_lost) = Returns False
   \<and> reconnectAttempts (snd (attemptReconnect env_refusing s_lost)) = 5
   \<and> connectCalls (snd (attemptReconnect env_refusing s_lost)) = 5
   \<and> \<not> connected (link (snd (attemptReconnect env_refusing s_lost)))
   \<and> \<not> live (link (snd (attemptReconnect env_refusing s_lost)))
   \<and> fst (attemptReconnect env_third s_lost) = Returns True
   \<and> reconnectAttempts (snd (attemptReconnect env_third s_lost)) = 0
   \<and> live (link (snd (attemptReconnect env_third s_lost)))
   \<and> MAX_RECONNECT_ATTEMPTS \<le> reconnectAttempts (snd (attemptReconnect env_refusing s_lost))
   \<and> fst (attemptReconnect env_refusing (snd (attemptReconnect env_refusing s_lost))) = Returns False"
proof -
  have h0: "reconnectAttempts s_lost = 0" and h1: "\<not> live (link s_lost)"
    and h2: "\<not> connected (link s_lost)" and h3: "connectCalls s_lost = 0"
    by (simp_all add: s_lost_def live_def)
  have f: "fst (attemptReconnect env_refusing s_lost) = Returns False"
    by (simp add: attemptReconnect.simps s_lost_def env_refusing_def try_reconnect_def connect_def
        live_def MAX_RECONNECT_ATTEMPTS_def)
  have t: "fst (attemptReconnect env_third s_lost) = Returns True"
    by (simp add: attemptReconnect.simps s_lost_def env_third_def try_reconnect_def connect_def
        live_def MAX_RECONNECT_ATTEMPTS_def joinTask_result first_joined_def)
  have le: "reconnectAttempts s_lost \<le> MAX_RECONNECT_ATTEMPTS"
    by (simp add: h0 MAX_RECONNECT_ATTEMPTS_def)
  note A = C7_bounded_reconnect [of env_refusing s_lost]
  from A f le have a1: "reconnectAttempts (snd (attemptReconnect env_refusing s_lost)) = MAX_RECONNECT_ATTEMPTS"
    and a2: "connectCalls (snd (attemptReconnect env_refusing s_lost))
              = connectCalls s_lost + nat (MAX_RECONNECT_ATTEMPTS - reconnectAttempts s_lost)"
    and a3: "connected (link (snd (attemptReconnect env_refusing s_lost))) = connected (link s_lost)"
    and a4: "\<not> live (link s_lost) \<longrightarrow> \<not> live (link (snd (attemptReconnect env_refusing s_lost)))"
    by blast+
  note B = C7_bounded_reconnect [of env_third s_lost]
  from B t have b1: "reconnectAttempts (snd (attemptReconnect env_third s_lost)) = 0"
    and b2: "live (link (snd (attemptReconnect env_third s_lost)))"
    by blast+
  from a1 have c0: "MAX_RECONNECT_ATTEMPTS \<le> reconnectAttempts (snd (attemptReconnect env_refusing s_lost))"
    by simp
  from C7_bounded_reconnect [of env_refusing "snd (attemptReconnect env_refusing s_lost)"] c0
  have "attemptReconnect env_refusing (snd (attemptReconnect env_refusing s_lost))
      = (Returns False, (snd (attemptReconnect env_refusing s_lost))\<lparr> isReconnecting := False \<rparr>)"
    by blast
  then have c1: "fst (attemptReconnect env_refusing (snd (attemptReconnect env_refusing s_lost))) = Returns False"
    by simp
  from a1 have a1': "reconnectAttempts (snd (attemptReconnect env_refusing s_lost)) = 5"
    by (simp add: MAX_RECONNECT_ATTEMPTS_def)
  from a2 have a2': "connectCalls (snd (attemptReconnect env_refusing s_lost)) = 5"
    by (simp add: h0 h3 MAX_RECONNECT_ATTEMPTS_def)
  from a3 h2 have a3': "\<not> connected (link (snd (attemptReconnect env_refusing s_lost)))"
    by simp
  from a4 h1 have a4': "\<not> live (link (snd (attemptReconnect env_refusing s_lost)))"
    by simp
  show ?thesis
    using h0 h1 f a1' a2' a3' a4' t b1 b2 c0 c1 by blast
qed

end
